theory Spec2Isabelle
  imports Main
begin

section \<open>Python values shared by both codecs\<close>

text \<open>
  A Python \<^verbatim>\<open>bytes\<close> object is a list of 8-bit characters. Exceptions are values:
  every function of the source that can raise returns \<open>exc + 'a\<close>, with \<open>Inl\<close> the
  exception. The three exception classes of \<^verbatim>\<open>exceptions.py\<close> that the codecs raise are
  kept apart from the built-in ones (\<^verbatim>\<open>KeyError\<close>, \<^verbatim>\<open>IndexError\<close>, \<^verbatim>\<open>TypeError\<close>,
  \<^verbatim>\<open>ValueError\<close>, \<^verbatim>\<open>struct.error\<close>, the Unicode errors), which escape whenever the
  source has no handler for them.
\<close>

type_synonym bytes = string

datatype bencode_violation =
    TrailingBytes
  | NoColon int
  | BadLength int
  | NoIntEnd int
  | LeadingZero int
  | BadInt int

datatype exc =
    TypeError
  | KeyError
  | IndexError
  | ValueError string
  | StructError
  | UnicodeEncodeError
  | UnicodeDecodeError
  | InvalidTorrentFileBencoding bencode_violation
  | InvalidBencodeDataType
  | InvalidMessageStructure string

section \<open>Wire messages (\<^verbatim>\<open>messages/message.py\<close>)\<close>

subsection \<open>The \<^verbatim>\<open>struct\<close> formats the messages use\<close>

text \<open>
  \<^verbatim>\<open>struct.pack\<close> with a big-endian unsigned format of \<open>n\<close> bytes (\<^verbatim>\<open>B\<close>, \<^verbatim>\<open>H\<close>, \<^verbatim>\<open>I\<close>
  are 1, 2 and 4 bytes) raises \<^verbatim>\<open>struct.error\<close> when the integer is negative or does
  not fit; \<^verbatim>\<open>Ns\<close> truncates or zero-pads a byte string to \<open>N\<close> bytes.
\<close>

fun be_bytes :: "nat \<Rightarrow> nat \<Rightarrow> bytes" where
  "be_bytes 0 x = []"
| "be_bytes (Suc n) x = be_bytes n (x div 256) @ [char_of (x mod 256)]"

definition pack_uint :: "nat \<Rightarrow> int \<Rightarrow> exc + bytes" where
  "pack_uint n x = (if 0 \<le> x \<and> x < 256 ^ n then Inr (be_bytes n (nat x)) else Inl StructError)"

definition pack_s :: "nat \<Rightarrow> bytes \<Rightarrow> exc + bytes" where
  "pack_s n b = Inr (take n b @ replicate (n - length b) (CHR 0x00))"

fun struct_pack :: "(exc + bytes) list \<Rightarrow> exc + bytes" where
  "struct_pack [] = Inr []"
| "struct_pack (f # fs) =
     (case f of
        Inl e \<Rightarrow> Inl e
      | Inr b \<Rightarrow> (case struct_pack fs of Inl e \<Rightarrow> Inl e | Inr bs \<Rightarrow> Inr (b @ bs)))"

definition unpack_uint :: "bytes \<Rightarrow> int" where
  "unpack_uint b = foldl (\<lambda>a c. a * 256 + of_char c) 0 b"

definition slice :: "bytes \<Rightarrow> nat \<Rightarrow> nat \<Rightarrow> bytes" where
  "slice b i j = take (j - i) (drop i b)"

subsection \<open>The message classes\<close>

text \<open>
  One constructor per class, holding the instance attributes in the order the
  constructors of the source assign them (\<^verbatim>\<open>_msg_len\<close> first, then \<^verbatim>\<open>_msg_id\<close> for the
  subclasses of \<^verbatim>\<open>IDMessage\<close>, then the class's own fields). \<^verbatim>\<open>__eq__\<close> compares the
  type and the attribute values pairwise, which is equality of this datatype.
\<close>

datatype message =
    Handshake int int bytes bytes bytes bytes
  | KeepAlive int
  | Choke int int
  | Unchoke int int
  | Interested int int
  | NotInterested int int
  | Have int int int
  | Bitfield int int bytes
  | Request int int int int int
  | Piece int int int int bytes
  | Cancel int int int int int
  | Port int int int

definition BITTORRENT_PSTR_V1 :: bytes where
  "BITTORRENT_PSTR_V1 = ''BitTorrent protocol''"

definition Handshake_LENGTH :: int where
  "Handshake_LENGTH = int (length BITTORRENT_PSTR_V1) + 49"

definition Handshake_RESERVED :: bytes where
  "Handshake_RESERVED = replicate 8 (CHR 0x00)"

definition Handshake_init :: "bytes \<Rightarrow> bytes \<Rightarrow> exc + message" where
  "Handshake_init info_hash peer_id =
     (if length info_hash \<noteq> 20 then Inl (ValueError ''The info hash must be 20 bytes long.'')
      else if length peer_id \<noteq> 20 then Inl (ValueError ''The peer ID must be 20 bytes long.'')
      else Inr (Handshake Handshake_LENGTH (int (length BITTORRENT_PSTR_V1)) BITTORRENT_PSTR_V1
                  Handshake_RESERVED info_hash peer_id))"

definition KeepAlive_init :: "exc + message" where
  "KeepAlive_init = Inr (KeepAlive 0)"

definition Choke_init :: "exc + message" where
  "Choke_init = Inr (Choke 1 0)"

definition Unchoke_init :: "exc + message" where
  "Unchoke_init = Inr (Unchoke 1 1)"

definition Interested_init :: "exc + message" where
  "Interested_init = Inr (Interested 1 2)"

definition NotInterested_init :: "exc + message" where
  "NotInterested_init = Inr (NotInterested 1 3)"

definition Have_init :: "int \<Rightarrow> exc + message" where
  "Have_init piece_index = Inr (Have 5 4 piece_index)"

text \<open>
  \<^verbatim>\<open>Bitfield.__init__\<close> raises unless its argument is a \<^verbatim>\<open>bytes\<close> object; the argument
  here is one by its type, so the guard never fires.
\<close>

definition Bitfield_init :: "bytes \<Rightarrow> exc + message" where
  "Bitfield_init bitfield = Inr (Bitfield (1 + int (length bitfield)) 5 bitfield)"

definition Request_init :: "int \<Rightarrow> int \<Rightarrow> int \<Rightarrow> exc + message" where
  "Request_init index begin len = Inr (Request 13 6 index begin len)"

definition Piece_init :: "int \<Rightarrow> int \<Rightarrow> bytes \<Rightarrow> exc + message" where
  "Piece_init index begin block = Inr (Piece (9 + int (length block)) 7 index begin block)"

definition Cancel_init :: "int \<Rightarrow> int \<Rightarrow> int \<Rightarrow> exc + message" where
  "Cancel_init index begin len = Inr (Cancel 13 8 index begin len)"

text \<open>
  \<^verbatim>\<open>Port.__init__\<close> tests \<^verbatim>\<open>not isinstance(port, int) and port < 0\<close>. The port is an
  \<^verbatim>\<open>int\<close> here, so \<open>isinstance_int\<close> is \<open>True\<close> and the conjunction is false for every
  port, negative ones included.
\<close>

definition isinstance_int :: "int \<Rightarrow> bool" where
  "isinstance_int x = True"

definition Port_init :: "int \<Rightarrow> exc + message" where
  "Port_init port =
     (if \<not> isinstance_int port \<and> port < 0 then Inl (ValueError ''Invalid port argument.'')
      else Inr (Port 3 9 port))"

subsection \<open>\<^verbatim>\<open>to_bytes\<close>\<close>

fun to_bytes :: "message \<Rightarrow> exc + bytes" where
  "to_bytes (Handshake msg_len pstr_len pstr reserved info_hash peer_id) =
     struct_pack [pack_uint 1 pstr_len, pack_s 19 pstr, pack_s 8 reserved,
                  pack_s 20 info_hash, pack_s 20 peer_id]"
| "to_bytes (KeepAlive msg_len) = struct_pack [pack_uint 4 msg_len]"
| "to_bytes (Choke msg_len msg_id) = struct_pack [pack_uint 4 msg_len, pack_uint 1 msg_id]"
| "to_bytes (Unchoke msg_len msg_id) = struct_pack [pack_uint 4 msg_len, pack_uint 1 msg_id]"
| "to_bytes (Interested msg_len msg_id) = struct_pack [pack_uint 4 msg_len, pack_uint 1 msg_id]"
| "to_bytes (NotInterested msg_len msg_id) =
     struct_pack [pack_uint 4 msg_len, pack_uint 1 msg_id]"
| "to_bytes (Have msg_len msg_id piece_index) =
     struct_pack [pack_uint 4 msg_len, pack_uint 1 msg_id, pack_uint 4 piece_index]"
| "to_bytes (Bitfield msg_len msg_id bitfield) =
     struct_pack [pack_uint 4 msg_len, pack_uint 1 msg_id, pack_s (length bitfield) bitfield]"
| "to_bytes (Request msg_len msg_id index begin len) =
     struct_pack [pack_uint 4 msg_len, pack_uint 1 msg_id, pack_uint 4 index,
                  pack_uint 4 begin, pack_uint 4 len]"
| "to_bytes (Piece msg_len msg_id index begin block) =
     struct_pack [pack_uint 4 msg_len, pack_uint 1 msg_id, pack_uint 4 index,
                  pack_uint 4 begin, pack_s (length block) block]"
| "to_bytes (Cancel msg_len msg_id index begin len) =
     struct_pack [pack_uint 4 msg_len, pack_uint 1 msg_id, pack_uint 4 index,
                  pack_uint 4 begin, pack_uint 4 len]"
| "to_bytes (Port msg_len msg_id port) =
     struct_pack [pack_uint 4 msg_len, pack_uint 1 msg_id, pack_uint 2 port]"

subsection \<open>\<^verbatim>\<open>from_bytes\<close>\<close>

text \<open>
  Each \<^verbatim>\<open>from_bytes\<close> checks the total length, unpacks the fixed layout and passes only
  the fields after the identifier byte to the constructor. \<^verbatim>\<open>Bitfield\<close> and \<^verbatim>\<open>Piece\<close>
  build their format from the payload length; a payload shorter than the fixed prefix
  gives a negative repeat count, which \<^verbatim>\<open>struct\<close> rejects.
\<close>

definition Handshake_from_bytes :: "bytes \<Rightarrow> exc + message" where
  "Handshake_from_bytes payload =
     (if int (length payload) \<noteq> Handshake_LENGTH
      then Inl (ValueError ''Expected a byte string of length 87.'')
      else Handshake_init (slice payload 28 48) (slice payload 48 68))"

definition KeepAlive_from_bytes :: "bytes \<Rightarrow> exc + message" where
  "KeepAlive_from_bytes payload =
     (if length payload \<noteq> 4 then Inl (ValueError ''Expected a byte string of length 4.'')
      else KeepAlive_init)"

definition IDMessage_from_bytes :: "(exc + message) \<Rightarrow> bytes \<Rightarrow> exc + message" where
  "IDMessage_from_bytes cls payload =
     (if length payload \<noteq> 5 then Inl (ValueError ''Expected a byte string of length 5.'')
      else cls)"

definition Have_from_bytes :: "bytes \<Rightarrow> exc + message" where
  "Have_from_bytes payload =
     (if length payload \<noteq> 9 then Inl (ValueError ''Expected a byte string of length 9.'')
      else Have_init (unpack_uint (slice payload 5 9)))"

definition Bitfield_from_bytes :: "bytes \<Rightarrow> exc + message" where
  "Bitfield_from_bytes payload =
     (if int (length payload) - 1 - 4 < 0 then Inl StructError
      else Bitfield_init (slice payload 5 (length payload)))"

definition Request_from_bytes :: "bytes \<Rightarrow> exc + message" where
  "Request_from_bytes payload =
     (if length payload \<noteq> 17 then Inl (ValueError ''Expected a byte string of length 17.'')
      else Request_init (unpack_uint (slice payload 5 9)) (unpack_uint (slice payload 9 13))
             (unpack_uint (slice payload 13 17)))"

definition Piece_from_bytes :: "bytes \<Rightarrow> exc + message" where
  "Piece_from_bytes payload =
     (if int (length payload) - 9 - 4 < 0 then Inl StructError
      else Piece_init (unpack_uint (slice payload 5 9)) (unpack_uint (slice payload 9 13))
             (slice payload 13 (length payload)))"

definition Cancel_from_bytes :: "bytes \<Rightarrow> exc + message" where
  "Cancel_from_bytes payload =
     (if length payload \<noteq> 17 then Inl (ValueError ''Expected a byte string of length 17.'')
      else Cancel_init (unpack_uint (slice payload 5 9)) (unpack_uint (slice payload 9 13))
             (unpack_uint (slice payload 13 17)))"

definition Port_from_bytes :: "bytes \<Rightarrow> exc + message" where
  "Port_from_bytes payload =
     (if length payload \<noteq> 7 then Inl (ValueError ''Expected a byte string of length 7.'')
      else Port_init (unpack_uint (slice payload 5 7)))"

subsection \<open>\<^verbatim>\<open>Bitfield.pieces_status\<close>\<close>

text \<open>
  \<^verbatim>\<open>bin(n)\<close> is \<^verbatim>\<open>0b\<close> followed by the binary digits of \<open>n\<close> without leading zeros
  (\<^verbatim>\<open>0b0\<close> for zero); \<^verbatim>\<open>s.lstrip(chars)\<close> drops the longest prefix of \<open>s\<close> made of
  characters of \<open>chars\<close>.
\<close>

fun bin_digits :: "nat \<Rightarrow> string" where
  "bin_digits n =
     (if n < 2 then [if n = 1 then CHR ''1'' else CHR ''0'']
      else bin_digits (n div 2) @ [if n mod 2 = 1 then CHR ''1'' else CHR ''0''])"

declare bin_digits.simps [simp del]

definition bin :: "nat \<Rightarrow> string" where
  "bin n = ''0b'' @ bin_digits n"

definition lstrip :: "string \<Rightarrow> string \<Rightarrow> string" where
  "lstrip s chars = dropWhile (\<lambda>c. c \<in> set chars) s"

definition byte_status :: "char \<Rightarrow> bool list" where
  "byte_status byte = map (\<lambda>b. if b = CHR ''1'' then True else False)
                          (lstrip (bin (of_char byte)) ''0b'')"

definition pieces_status :: "bytes \<Rightarrow> bool list" where
  "pieces_status bitfield = concat (map byte_status bitfield)"

section \<open>The dispatcher (\<^verbatim>\<open>messages/message_decoder.py\<close>)\<close>

definition MESSAGE_CLASS :: "nat \<Rightarrow> (bytes \<Rightarrow> exc + message) option" where
  "MESSAGE_CLASS msg_id =
     (if msg_id = 0 then Some (IDMessage_from_bytes Choke_init)
      else if msg_id = 1 then Some (IDMessage_from_bytes Unchoke_init)
      else if msg_id = 2 then Some (IDMessage_from_bytes Interested_init)
      else if msg_id = 3 then Some (IDMessage_from_bytes NotInterested_init)
      else if msg_id = 4 then Some Have_from_bytes
      else if msg_id = 5 then Some Bitfield_from_bytes
      else if msg_id = 6 then Some Request_from_bytes
      else if msg_id = 7 then Some Piece_from_bytes
      else if msg_id = 8 then Some Cancel_from_bytes
      else if msg_id = 9 then Some Port_from_bytes
      else None)"

definition decode_message :: "bytes \<Rightarrow> exc + message" where
  "decode_message payload =
     (if length payload < 4
      then Inl (InvalidMessageStructure ''Valid messages must be at least 4 bytes in length.'')
      else if length payload = 4 then KeepAlive_init
      else if of_char (payload ! 0) = (19 :: nat) then Handshake_from_bytes payload
      else (case MESSAGE_CLASS (of_char (payload ! 4)) of
              None \<Rightarrow> Inl (InvalidMessageStructure ''Unknown message ID.'')
            | Some from_bytes \<Rightarrow> from_bytes payload))"

section \<open>Python objects and the built-ins the bencoding codec calls\<close>

text \<open>
  The objects \<^verbatim>\<open>encode\<close> receives and \<^verbatim>\<open>decode\<close> returns. \<open>PyDict\<close> stands for
  \<^verbatim>\<open>dict\<close> and \<^verbatim>\<open>collections.OrderedDict\<close> alike (the encoder's table sends both to
  \<^verbatim>\<open>_encode_dict\<close>): the list holds the items in insertion order, and a Python
  dictionary never holds the same key twice. \<open>PyStr\<close> is a \<^verbatim>\<open>str\<close>, a sequence of code
  points. \<open>PyOther t\<close> is an object of any type \<open>t\<close> that is not a key of the encoder's
  table (\<^verbatim>\<open>float\<close>, \<^verbatim>\<open>NoneType\<close>, \<^verbatim>\<open>set\<close>, a subclass of \<^verbatim>\<open>int\<close>, ...).
\<close>

datatype pyobj =
    PyInt int
  | PyBool bool
  | PyStr "nat list"
  | PyBytes bytes
  | PyList "pyobj list"
  | PyTuple "pyobj list"
  | PyDict "(pyobj \<times> pyobj) list"
  | PyOther string

subsection \<open>\<^verbatim>\<open>str(i)\<close> and \<^verbatim>\<open>s.encode()\<close>\<close>

fun str_nat :: "nat \<Rightarrow> string" where
  "str_nat n =
     (if n < 10 then [char_of (48 + n)] else str_nat (n div 10) @ [char_of (48 + n mod 10)])"

declare str_nat.simps [simp del]

definition str_int :: "int \<Rightarrow> string" where
  "str_int i = (if i < 0 then CHR ''-'' # str_nat (nat (- i)) else str_nat (nat i))"

text \<open>
  \<^verbatim>\<open>s.encode()\<close> is UTF-8; a lone surrogate (\<^verbatim>\<open>U+D800\<close> to \<^verbatim>\<open>U+DFFF\<close>) cannot be
  encoded and raises \<^verbatim>\<open>UnicodeEncodeError\<close>.
\<close>

definition utf8_char :: "nat \<Rightarrow> exc + bytes" where
  "utf8_char cp =
     (if cp < 0x80 then Inr [char_of cp]
      else if cp < 0x800 then Inr [char_of (0xC0 + cp div 64), char_of (0x80 + cp mod 64)]
      else if 0xD800 \<le> cp \<and> cp \<le> 0xDFFF then Inl UnicodeEncodeError
      else if cp < 0x10000
      then Inr [char_of (0xE0 + cp div 4096), char_of (0x80 + cp div 64 mod 64),
                char_of (0x80 + cp mod 64)]
      else Inr [char_of (0xF0 + cp div 262144), char_of (0x80 + cp div 4096 mod 64),
                char_of (0x80 + cp div 64 mod 64), char_of (0x80 + cp mod 64)])"

fun str_encode :: "nat list \<Rightarrow> exc + bytes" where
  "str_encode [] = Inr []"
| "str_encode (cp # s) =
     (case utf8_char cp of
        Inl e \<Rightarrow> Inl e
      | Inr b \<Rightarrow> (case str_encode s of Inl e \<Rightarrow> Inl e | Inr bs \<Rightarrow> Inr (b @ bs)))"

subsection \<open>Indexing, slicing and \<^verbatim>\<open>find\<close> on \<^verbatim>\<open>bytes\<close>\<close>

text \<open>
  The decoder's cursor is a Python \<^verbatim>\<open>int\<close> and can become negative (a negative length
  in front of a colon moves it backwards), so the built-ins are modelled on all
  integers: \<^verbatim>\<open>data[i]\<close> counts a negative index from the end and raises
  \<^verbatim>\<open>IndexError\<close> outside \<open>-len \<dots> len - 1\<close>; a slice bound is moved into
  \<open>0 \<dots> len\<close> the same way and never raises; \<^verbatim>\<open>data.find(c, start)\<close> is the lowest
  index at or after the adjusted start, or \<open>-1\<close>.
\<close>

definition getitem :: "bytes \<Rightarrow> int \<Rightarrow> exc + char" where
  "getitem data i =
     (let n = int (length data); j = (if i < 0 then i + n else i)
      in if 0 \<le> j \<and> j < n then Inr (data ! nat j) else Inl IndexError)"

definition adjust_index :: "nat \<Rightarrow> int \<Rightarrow> nat" where
  "adjust_index n i = (if i < 0 then nat (max 0 (i + int n)) else min (nat i) n)"

definition py_slice :: "bytes \<Rightarrow> int \<Rightarrow> int \<Rightarrow> bytes" where
  "py_slice data i j =
     (let lo = adjust_index (length data) i; hi = adjust_index (length data) j
      in take (hi - lo) (drop lo data))"

fun index_of :: "char \<Rightarrow> bytes \<Rightarrow> nat option" where
  "index_of c [] = None"
| "index_of c (x # xs) = (if x = c then Some 0 else map_option Suc (index_of c xs))"

definition find :: "bytes \<Rightarrow> char \<Rightarrow> int \<Rightarrow> int" where
  "find data c start =
     (let lo = adjust_index (length data) start
      in case index_of c (drop lo data) of None \<Rightarrow> - 1 | Some k \<Rightarrow> int (lo + k))"

subsection \<open>\<^verbatim>\<open>int(b)\<close> on a \<^verbatim>\<open>bytes\<close> object\<close>

text \<open>
  \<^verbatim>\<open>int\<close> in base 10, as CPython (3.6 and later) parses it: ASCII whitespace is
  skipped on both sides, one sign \<^verbatim>\<open>+\<close> or \<^verbatim>\<open>-\<close> is accepted, the digits may have
  leading zeros and single underscores between digits, and anything else raises
  \<^verbatim>\<open>ValueError\<close> (\<open>None\<close> here). The limit that recent versions put on the number of
  digits is not modelled.
\<close>

definition py_isspace :: "char \<Rightarrow> bool" where
  "py_isspace c \<longleftrightarrow> c \<in> set [CHR 0x09, CHR 0x0A, CHR 0x0B, CHR 0x0C, CHR 0x0D, CHR 0x20]"

definition py_isdigit :: "char \<Rightarrow> bool" where
  "py_isdigit c \<longleftrightarrow> (48 :: nat) \<le> of_char c \<and> of_char c \<le> (57 :: nat)"

definition digit_val :: "char \<Rightarrow> int" where
  "digit_val c = int (of_char c) - 48"

fun scan_digits :: "char \<Rightarrow> int \<Rightarrow> string \<Rightarrow> (int \<times> string) option" where
  "scan_digits prev acc [] = (if prev = CHR ''_'' then None else Some (acc, []))"
| "scan_digits prev acc (c # cs) =
     (if c = CHR ''_'' then (if prev = CHR ''_'' then None else scan_digits c acc cs)
      else if py_isdigit c then scan_digits c (acc * 10 + digit_val c) cs
      else if prev = CHR ''_'' then None
      else Some (acc, c # cs))"

definition py_int :: "bytes \<Rightarrow> int option" where
  "py_int b =
     (let s = dropWhile py_isspace b;
          sign = (case s of c # cs \<Rightarrow> if c = CHR ''-'' then - 1 else 1 | [] \<Rightarrow> (1 :: int));
          s1 = (case s of c # cs \<Rightarrow> if c = CHR ''+'' \<or> c = CHR ''-'' then cs else s | [] \<Rightarrow> s)
      in case s1 of
           [] \<Rightarrow> None
         | c # cs \<Rightarrow>
             if \<not> py_isdigit c then None
             else (case scan_digits (CHR 0x00) 0 s1 of
                     None \<Rightarrow> None
                   | Some (v, rest) \<Rightarrow>
                       if dropWhile py_isspace rest = [] then Some (sign * v) else None))"

section \<open>The encoder (\<^verbatim>\<open>bencoding/encode.py\<close>)\<close>

text \<open>
  The methods append chunks to \<^verbatim>\<open>self._bencoded\<close>, which is passed along and returned.
  Looking up a type that is not in \<^verbatim>\<open>self._encode_func\<close> raises \<^verbatim>\<open>KeyError\<close>, at any
  depth; only \<^verbatim>\<open>encode\<close> has a handler.
\<close>

definition encode_int :: "int \<Rightarrow> bytes list \<Rightarrow> exc + bytes list" where
  "encode_int i bencoded = Inr (bencoded @ [''i'' @ str_int i @ ''e''])"

definition encode_bool :: "bool \<Rightarrow> bytes list \<Rightarrow> exc + bytes list" where
  "encode_bool b bencoded = (if b then encode_int 1 bencoded else encode_int 0 bencoded)"

definition encode_str :: "nat list \<Rightarrow> bytes list \<Rightarrow> exc + bytes list" where
  "encode_str s bencoded =
     (case str_encode s of
        Inl e \<Rightarrow> Inl e
      | Inr b \<Rightarrow> Inr (bencoded @ [str_int (int (length s)) @ '':'' @ b]))"

definition encode_bytes :: "bytes \<Rightarrow> bytes list \<Rightarrow> exc + bytes list" where
  "encode_bytes b bencoded = Inr (bencoded @ [str_int (int (length b)) @ '':'' @ b])"

function encode_func :: "pyobj \<Rightarrow> bytes list \<Rightarrow> exc + bytes list"
  and encode_list :: "pyobj list \<Rightarrow> bytes list \<Rightarrow> exc + bytes list"
  and encode_dict :: "(pyobj \<times> pyobj) list \<Rightarrow> bytes list \<Rightarrow> exc + bytes list"
where
  "encode_func (PyInt i) bencoded = encode_int i bencoded"
| "encode_func (PyBool b) bencoded = encode_bool b bencoded"
| "encode_func (PyStr s) bencoded = encode_str s bencoded"
| "encode_func (PyBytes b) bencoded = encode_bytes b bencoded"
| "encode_func (PyList lst) bencoded =
     (case encode_list lst (bencoded @ [''l'']) of
        Inl e \<Rightarrow> Inl e
      | Inr bencoded' \<Rightarrow> Inr (bencoded' @ [''e'']))"
| "encode_func (PyTuple lst) bencoded =
     (case encode_list lst (bencoded @ [''l'']) of
        Inl e \<Rightarrow> Inl e
      | Inr bencoded' \<Rightarrow> Inr (bencoded' @ [''e'']))"
| "encode_func (PyDict d) bencoded =
     (case encode_dict d (bencoded @ [''d'']) of
        Inl e \<Rightarrow> Inl e
      | Inr bencoded' \<Rightarrow> Inr (bencoded' @ [''e'']))"
| "encode_func (PyOther t) bencoded = Inl KeyError"
| "encode_list [] bencoded = Inr bencoded"
| "encode_list (el # lst) bencoded =
     (case encode_func el bencoded of
        Inl e \<Rightarrow> Inl e
      | Inr bencoded' \<Rightarrow> encode_list lst bencoded')"
| "encode_dict [] bencoded = Inr bencoded"
| "encode_dict ((k, v) # d) bencoded =
     (case encode_func k bencoded of
        Inl e \<Rightarrow> Inl e
      | Inr bencoded' \<Rightarrow>
          (case encode_func v bencoded' of
             Inl e \<Rightarrow> Inl e
           | Inr bencoded'' \<Rightarrow> encode_dict d bencoded''))"
  by pat_completeness auto

termination
  by (relation "measure (\<lambda>x. case x of
          Inl (v, _) \<Rightarrow> size v
        | Inr (Inl (lst, _)) \<Rightarrow> size_list size lst
        | Inr (Inr (d, _)) \<Rightarrow> size_list (size_prod size size) d)") auto

definition encode :: "pyobj \<Rightarrow> exc + bytes" where
  "encode data =
     (case encode_func data [] of
        Inl UnicodeDecodeError \<Rightarrow> Inl InvalidBencodeDataType
      | Inl KeyError \<Rightarrow> Inl InvalidBencodeDataType
      | Inl e \<Rightarrow> Inl e
      | Inr bencoded \<Rightarrow> Inr (concat bencoded))"

section \<open>The decoder (\<^verbatim>\<open>bencoding/decode.py\<close>)\<close>

text \<open>
  The decoder's state is the buffer and \<^verbatim>\<open>self._curr_index\<close>; each method takes the
  cursor and returns the decoded object with the new cursor. An \<^verbatim>\<open>OrderedDict\<close>
  assignment replaces the value of a key already present, where it stands, and appends
  a new key.
\<close>

definition decode_str :: "bytes \<Rightarrow> int \<Rightarrow> exc + pyobj \<times> int" where
  "decode_str data curr_index =
     (let colon_index = find data (CHR '':'') curr_index
      in if colon_index = - 1 then Inl (InvalidTorrentFileBencoding (NoColon curr_index))
         else (case py_int (py_slice data curr_index colon_index) of
                 None \<Rightarrow> Inl (InvalidTorrentFileBencoding (BadLength curr_index))
               | Some str_length \<Rightarrow>
                   Inr (PyBytes (py_slice data (colon_index + 1) (colon_index + 1 + str_length)),
                        colon_index + 1 + str_length)))"

definition decode_int :: "bytes \<Rightarrow> int \<Rightarrow> exc + pyobj \<times> int" where
  "decode_int data curr_index0 =
     (let curr_index = curr_index0 + 1;
          int_end = find data (CHR ''e'') curr_index
      in if int_end = - 1 then Inl (InvalidTorrentFileBencoding (NoIntEnd curr_index))
         else (let i = py_slice data curr_index int_end
               in if length i > 1 \<and> (i ! 0 = CHR ''0'' \<or> (i ! 0 = CHR ''-'' \<and> i ! 1 = CHR ''0''))
                  then Inl (InvalidTorrentFileBencoding (LeadingZero curr_index))
                  else (case py_int i of
                          None \<Rightarrow> Inl (InvalidTorrentFileBencoding (BadInt curr_index))
                        | Some v \<Rightarrow> Inr (PyInt v, int_end + 1))))"

definition setitem :: "(pyobj \<times> pyobj) list \<Rightarrow> pyobj \<Rightarrow> pyobj \<Rightarrow> (pyobj \<times> pyobj) list" where
  "setitem d key val =
     (if key \<in> set (map fst d) then map (\<lambda>(k, v). if k = key then (k, val) else (k, v)) d
      else d @ [(key, val)])"

text \<open>
  The loops of \<^verbatim>\<open>_decode_list\<close> and \<^verbatim>\<open>_decode_dict\<close> need not end (a negative
  length can send the cursor back to where an earlier iteration started), and the
  methods call each other through the table \<^verbatim>\<open>self._bdecode\<close>. The first argument
  bounds the number of nested calls and iterations; \<open>None\<close> means that the bound was
  reached before the decoder returned or raised.
\<close>

fun bdecode :: "nat \<Rightarrow> bytes \<Rightarrow> char \<Rightarrow> int \<Rightarrow> (exc + pyobj \<times> int) option"
  and decode_list :: "nat \<Rightarrow> bytes \<Rightarrow> int \<Rightarrow> pyobj list \<Rightarrow> (exc + pyobj \<times> int) option"
  and decode_dict ::
    "nat \<Rightarrow> bytes \<Rightarrow> int \<Rightarrow> (pyobj \<times> pyobj) list \<Rightarrow> (exc + pyobj \<times> int) option"
where
  "bdecode 0 data curr_byte curr_index = None"
| "bdecode (Suc n) data curr_byte curr_index =
     (if curr_byte = CHR ''l'' then decode_list n data (curr_index + 1) []
      else if curr_byte = CHR ''d'' then decode_dict n data (curr_index + 1) []
      else if curr_byte = CHR ''i'' then Some (decode_int data curr_index)
      else if curr_byte \<in> set ''0123456789'' then Some (decode_str data curr_index)
      else Some (Inl KeyError))"
| "decode_list 0 data curr_index lst = None"
| "decode_list (Suc n) data curr_index lst =
     (if curr_index < int (length data)
      then (case getitem data curr_index of
              Inl e \<Rightarrow> Some (Inl e)
            | Inr curr_byte \<Rightarrow>
                if curr_byte \<noteq> CHR ''e''
                then (case bdecode n data curr_byte curr_index of
                        None \<Rightarrow> None
                      | Some (Inl e) \<Rightarrow> Some (Inl e)
                      | Some (Inr (element, curr_index')) \<Rightarrow>
                          decode_list n data curr_index' (lst @ [element]))
                else Some (Inr (PyList lst, curr_index + 1)))
      else Some (Inr (PyList lst, curr_index + 1)))"
| "decode_dict 0 data curr_index d = None"
| "decode_dict (Suc n) data curr_index d =
     (if curr_index < int (length data)
      then (case getitem data curr_index of
              Inl e \<Rightarrow> Some (Inl e)
            | Inr curr_byte \<Rightarrow>
                if curr_byte \<noteq> CHR ''e''
                then (case decode_str data curr_index of
                        Inl e \<Rightarrow> Some (Inl e)
                      | Inr (key, curr_index') \<Rightarrow>
                          (case getitem data curr_index' of
                             Inl e \<Rightarrow> Some (Inl e)
                           | Inr curr_byte' \<Rightarrow>
                               (case bdecode n data curr_byte' curr_index' of
                                  None \<Rightarrow> None
                                | Some (Inl e) \<Rightarrow> Some (Inl e)
                                | Some (Inr (val, curr_index'')) \<Rightarrow>
                                    decode_dict n data curr_index'' (setitem d key val))))
                else Some (Inr (PyDict d, curr_index + 1)))
      else Some (Inr (PyDict d, curr_index + 1)))"

definition Decoder_init :: "bytes \<Rightarrow> exc + bytes" where
  "Decoder_init data = (if data = [] then Inl TypeError else Inr data)"

definition Decoder_decode :: "nat \<Rightarrow> bytes \<Rightarrow> (exc + pyobj) option" where
  "Decoder_decode n data =
     (case getitem data 0 of
        Inl e \<Rightarrow> Some (Inl e)
      | Inr curr_byte \<Rightarrow>
          (case bdecode n data curr_byte 0 of
             None \<Rightarrow> None
           | Some (Inl e) \<Rightarrow> Some (Inl e)
           | Some (Inr (res, curr_index)) \<Rightarrow>
               if curr_index \<noteq> int (length data)
               then Some (Inl (InvalidTorrentFileBencoding TrailingBytes))
               else Some (Inr res)))"

definition decode :: "nat \<Rightarrow> bytes \<Rightarrow> (exc + pyobj) option" where
  "decode n data =
     (case Decoder_init data of Inl e \<Rightarrow> Some (Inl e) | Inr data' \<Rightarrow> Decoder_decode n data')"

section \<open>The value model and the encoding rules of the specification\<close>

text \<open>
  The four shapes of the specification's value model: a byte string, an integer, a list
  of values, and an ordered mapping from byte strings to values. The keys of a mapping
  are pairwise different, as in every Python dictionary.
\<close>

function value_shape :: "pyobj \<Rightarrow> bool"
  and list_shape :: "pyobj list \<Rightarrow> bool"
  and items_shape :: "(pyobj \<times> pyobj) list \<Rightarrow> bool"
where
  "value_shape (PyBytes b) = True"
| "value_shape (PyInt i) = True"
| "value_shape (PyList lst) = list_shape lst"
| "value_shape (PyDict d) = (distinct (map fst d) \<and> items_shape d)"
| "value_shape (PyBool b) = False"
| "value_shape (PyStr s) = False"
| "value_shape (PyTuple lst) = False"
| "value_shape (PyOther t) = False"
| "list_shape [] = True"
| "list_shape (v # lst) = (value_shape v \<and> list_shape lst)"
| "items_shape [] = True"
| "items_shape ((k, v) # d) =
     ((case k of PyBytes b \<Rightarrow> True | _ \<Rightarrow> False) \<and> value_shape v \<and> items_shape d)"
  by pat_completeness auto

termination
  by (relation "measure (\<lambda>x. case x of
          Inl v \<Rightarrow> size v
        | Inr (Inl lst) \<Rightarrow> size_list size lst
        | Inr (Inr d) \<Rightarrow> size_list (size_prod size size) d)") auto

text \<open>
  The encoding rules as the specification words them: an integer is its decimal text
  between \<^verbatim>\<open>i\<close> and \<^verbatim>\<open>e\<close>; a byte string is its decimal length, a colon and the raw
  bytes; a list is \<^verbatim>\<open>l\<close>, the elements in order, \<^verbatim>\<open>e\<close>; a mapping is \<^verbatim>\<open>d\<close>, each key
  followed by its value in the order of the mapping, \<^verbatim>\<open>e\<close>. Nothing is sorted.
\<close>

function bencoding :: "pyobj \<Rightarrow> bytes"
  and bencoding_list :: "pyobj list \<Rightarrow> bytes"
  and bencoding_items :: "(pyobj \<times> pyobj) list \<Rightarrow> bytes"
where
  "bencoding (PyInt i) = ''i'' @ str_int i @ ''e''"
| "bencoding (PyBytes b) = str_int (int (length b)) @ '':'' @ b"
| "bencoding (PyList lst) = ''l'' @ bencoding_list lst @ ''e''"
| "bencoding (PyDict d) = ''d'' @ bencoding_items d @ ''e''"
| "bencoding (PyBool b) = []"
| "bencoding (PyStr s) = []"
| "bencoding (PyTuple lst) = []"
| "bencoding (PyOther t) = []"
| "bencoding_list [] = []"
| "bencoding_list (v # lst) = bencoding v @ bencoding_list lst"
| "bencoding_items [] = []"
| "bencoding_items ((k, v) # d) = bencoding k @ bencoding v @ bencoding_items d"
  by pat_completeness auto

termination
  by (relation "measure (\<lambda>x. case x of
          Inl v \<Rightarrow> size v
        | Inr (Inl lst) \<Rightarrow> size_list size lst
        | Inr (Inr d) \<Rightarrow> size_list (size_prod size size) d)") auto

section \<open>Unsupported types and strings that cannot be encoded\<close>

text \<open>
  \<open>has_unsupported\<close> holds of an object that is, or holds at any depth (as a list or
  tuple element, a mapping key or a mapping value), an object of a type outside the
  encoder's table. \<open>encodable_strs\<close> holds when no \<^verbatim>\<open>str\<close> inside the object has a lone
  surrogate.
\<close>

function has_unsupported :: "pyobj \<Rightarrow> bool"
  and list_has_unsupported :: "pyobj list \<Rightarrow> bool"
  and items_have_unsupported :: "(pyobj \<times> pyobj) list \<Rightarrow> bool"
where
  "has_unsupported (PyOther t) = True"
| "has_unsupported (PyList lst) = list_has_unsupported lst"
| "has_unsupported (PyTuple lst) = list_has_unsupported lst"
| "has_unsupported (PyDict d) = items_have_unsupported d"
| "has_unsupported (PyInt i) = False"
| "has_unsupported (PyBool b) = False"
| "has_unsupported (PyStr s) = False"
| "has_unsupported (PyBytes b) = False"
| "list_has_unsupported [] = False"
| "list_has_unsupported (v # lst) = (has_unsupported v \<or> list_has_unsupported lst)"
| "items_have_unsupported [] = False"
| "items_have_unsupported ((k, v) # d) =
     (has_unsupported k \<or> has_unsupported v \<or> items_have_unsupported d)"
  by pat_completeness auto

termination
  by (relation "measure (\<lambda>x. case x of
          Inl v \<Rightarrow> size v
        | Inr (Inl lst) \<Rightarrow> size_list size lst
        | Inr (Inr d) \<Rightarrow> size_list (size_prod size size) d)") auto

definition is_surrogate :: "nat \<Rightarrow> bool" where
  "is_surrogate cp \<longleftrightarrow> 0xD800 \<le> cp \<and> cp \<le> 0xDFFF"

function encodable_strs :: "pyobj \<Rightarrow> bool"
  and list_encodable_strs :: "pyobj list \<Rightarrow> bool"
  and items_encodable_strs :: "(pyobj \<times> pyobj) list \<Rightarrow> bool"
where
  "encodable_strs (PyStr s) = list_all (\<lambda>cp. \<not> is_surrogate cp) s"
| "encodable_strs (PyList lst) = list_encodable_strs lst"
| "encodable_strs (PyTuple lst) = list_encodable_strs lst"
| "encodable_strs (PyDict d) = items_encodable_strs d"
| "encodable_strs (PyInt i) = True"
| "encodable_strs (PyBool b) = True"
| "encodable_strs (PyBytes b) = True"
| "encodable_strs (PyOther t) = True"
| "list_encodable_strs [] = True"
| "list_encodable_strs (v # lst) = (encodable_strs v \<and> list_encodable_strs lst)"
| "items_encodable_strs [] = True"
| "items_encodable_strs ((k, v) # d) =
     (encodable_strs k \<and> encodable_strs v \<and> items_encodable_strs d)"
  by pat_completeness auto

termination
  by (relation "measure (\<lambda>x. case x of
          Inl v \<Rightarrow> size v
        | Inr (Inl lst) \<Rightarrow> size_list size lst
        | Inr (Inr d) \<Rightarrow> size_list (size_prod size size) d)") auto

section \<open>Properties of the wire messages\<close>

subsection \<open>Auxiliary facts\<close>

lemma length_be_bytes: "length (be_bytes n x) = n"
  by (induction n arbitrary: x) auto

lemma pack_uint_1_19: "pack_uint (Suc 0) 19 = Inr [CHR 0x13]"
  by code_simp

lemma Handshake_to_bytes:
  "to_bytes (Handshake 68 19 BITTORRENT_PSTR_V1 Handshake_RESERVED info_hash peer_id)
   = Inr (CHR 0x13 # BITTORRENT_PSTR_V1 @ Handshake_RESERVED @ take 20 info_hash @ replicate (20 - length info_hash) (CHR 0x00) @ take 20 peer_id @ replicate (20 - length peer_id) (CHR 0x00))"
  by (simp add: pack_uint_1_19 pack_s_def BITTORRENT_PSTR_V1_def Handshake_RESERVED_def)

lemma Handshake_LENGTH_68: "Handshake_LENGTH = 68"
  by (simp add: Handshake_LENGTH_def BITTORRENT_PSTR_V1_def)

lemma Choke_to_bytes: "to_bytes (Choke 1 0) = Inr [CHR 0x00, CHR 0x00, CHR 0x00, CHR 0x01, CHR 0x00]"
  by code_simp

lemma Choke_dispatch:
  "decode_message [CHR 0x00, CHR 0x00, CHR 0x00, CHR 0x01, CHR 0x00] = Inr (Choke 1 0)"
  by code_simp

subsection \<open>Bit order of \<^verbatim>\<open>Bitfield.pieces_status\<close>\<close>

text \<open>
  Claim C2. \<^verbatim>\<open>pieces_status\<close> should give, for every byte, eight booleans, the most
  significant bit first. The byte \<^verbatim>\<open>0b10100000\<close> of the specification's example does
  expand to eight booleans, because its top bit is set. The source builds the digits
  with \<^verbatim>\<open>bin(byte_).lstrip('0b')\<close>, which has no leading zeros: the byte
  \<^verbatim>\<open>0b00100000\<close> gives six booleans, the first of them \<open>True\<close>, so piece 0 is
  reported present although the top bit is clear, and every later piece index shifts.
\<close>

theorem pieces_status_drops_leading_zero_bits:
  "pieces_status [CHR 0xA0] = [True, False, True, False, False, False, False, False]
   \<and> pieces_status [CHR 0x20] = [True, False, False, False, False, False]
   \<and> pieces_status [CHR 0x00, CHR 0x80] = [True, False, False, False, False, False, False, False]"
  by code_simp

subsection \<open>Totality of \<^verbatim>\<open>to_bytes\<close>\<close>

text \<open>
  Claim C3, as stated, fails: the constructor of \<^verbatim>\<open>Have\<close> accepts any integer and
  \<^verbatim>\<open>to_bytes\<close> then raises \<^verbatim>\<open>struct.error\<close> for a piece index that does not fit four
  bytes.
\<close>

theorem Have_constructed_to_bytes_fails:
  "Have_init 4294967296 = Inr (Have 5 4 4294967296)
   \<and> to_bytes (Have 5 4 4294967296) = Inl StructError"
  by (simp add: Have_init_def pack_uint_def)

text \<open>
  Claim C3, amended. \<^verbatim>\<open>to_bytes\<close> is a function of the instance. For an instance
  returned by a constructor it returns a byte string exactly when every integer
  attribute fits its unsigned field of the wire format (\<^verbatim>\<open>msg_len\<close> and the 4-byte
  fields below \<open>2 ^ 32\<close>, the port below \<open>2 ^ 16\<close>, none negative) and raises
  \<^verbatim>\<open>struct.error\<close> otherwise; \<^verbatim>\<open>Handshake\<close>, \<^verbatim>\<open>KeepAlive\<close>, \<^verbatim>\<open>Choke\<close>, \<^verbatim>\<open>Unchoke\<close>,
  \<^verbatim>\<open>Interested\<close> and \<^verbatim>\<open>NotInterested\<close> always serialise.
\<close>

theorem to_bytes_total_when_fields_fit:
  "(Handshake_init info_hash peer_id = Inr m \<longrightarrow> (\<exists>bs. to_bytes m = Inr bs))
   \<and> (Inr m \<in> {KeepAlive_init, Choke_init, Unchoke_init, Interested_init, NotInterested_init}
        \<longrightarrow> (\<exists>bs. to_bytes m = Inr bs))
   \<and> (Have_init i = Inr m \<longrightarrow>
        (if 0 \<le> i \<and> i < 2 ^ 32 then \<exists>bs. to_bytes m = Inr bs
         else to_bytes m = Inl StructError))
   \<and> (Request_init i b l = Inr m \<or> Cancel_init i b l = Inr m \<longrightarrow>
        (if 0 \<le> i \<and> i < 2 ^ 32 \<and> 0 \<le> b \<and> b < 2 ^ 32 \<and> 0 \<le> l \<and> l < 2 ^ 32
         then \<exists>bs. to_bytes m = Inr bs else to_bytes m = Inl StructError))
   \<and> (Bitfield_init bitfield = Inr m \<longrightarrow>
        (if 1 + int (length bitfield) < 2 ^ 32 then \<exists>bs. to_bytes m = Inr bs
         else to_bytes m = Inl StructError))
   \<and> (Piece_init i b block = Inr m \<longrightarrow>
        (if 0 \<le> i \<and> i < 2 ^ 32 \<and> 0 \<le> b \<and> b < 2 ^ 32 \<and> 9 + int (length block) < 2 ^ 32
         then \<exists>bs. to_bytes m = Inr bs else to_bytes m = Inl StructError))
   \<and> (Port_init port = Inr m \<longrightarrow>
        (if 0 \<le> port \<and> port < 2 ^ 16 then \<exists>bs. to_bytes m = Inr bs
         else to_bytes m = Inl StructError))"
proof (intro conjI impI)
  assume "Handshake_init info_hash peer_id = Inr m"
  then show "\<exists>bs. to_bytes m = Inr bs"
    by (auto simp: Handshake_init_def BITTORRENT_PSTR_V1_def pack_uint_def pack_s_def
        split: if_splits)
next
  assume "Inr m \<in> {KeepAlive_init, Choke_init, Unchoke_init, Interested_init, NotInterested_init}"
  then show "\<exists>bs. to_bytes m = Inr bs"
    by (auto simp: KeepAlive_init_def Choke_init_def Unchoke_init_def Interested_init_def
        NotInterested_init_def pack_uint_def)
next
  assume "Have_init i = Inr m"
  then have m: "m = Have 5 4 i" by (simp add: Have_init_def)
  show "if 0 \<le> i \<and> i < 2 ^ 32 then \<exists>bs. to_bytes m = Inr bs else to_bytes m = Inl StructError"
    unfolding m by (auto simp: pack_uint_def)
next
  assume "Request_init i b l = Inr m \<or> Cancel_init i b l = Inr m"
  then have m: "m = Request 13 6 i b l \<or> m = Cancel 13 8 i b l"
    by (auto simp: Request_init_def Cancel_init_def)
  show "if 0 \<le> i \<and> i < 2 ^ 32 \<and> 0 \<le> b \<and> b < 2 ^ 32 \<and> 0 \<le> l \<and> l < 2 ^ 32
         then \<exists>bs. to_bytes m = Inr bs else to_bytes m = Inl StructError"
    using m by (auto simp: pack_uint_def)
next
  assume "Bitfield_init bitfield = Inr m"
  then have m: "m = Bitfield (1 + int (length bitfield)) 5 bitfield"
    by (simp add: Bitfield_init_def)
  show "if 1 + int (length bitfield) < 2 ^ 32 then \<exists>bs. to_bytes m = Inr bs
         else to_bytes m = Inl StructError"
    unfolding m by (auto simp: pack_uint_def pack_s_def)
next
  assume "Piece_init i b block = Inr m"
  then have m: "m = Piece (9 + int (length block)) 7 i b block"
    by (simp add: Piece_init_def)
  show "if 0 \<le> i \<and> i < 2 ^ 32 \<and> 0 \<le> b \<and> b < 2 ^ 32 \<and> 9 + int (length block) < 2 ^ 32
         then \<exists>bs. to_bytes m = Inr bs else to_bytes m = Inl StructError"
    unfolding m by (auto simp: pack_uint_def pack_s_def)
next
  assume "Port_init port = Inr m"
  then have m: "m = Port 3 9 port" by (simp add: Port_init_def isinstance_int_def)
  show "if 0 \<le> port \<and> port < 2 ^ 16 then \<exists>bs. to_bytes m = Inr bs
         else to_bytes m = Inl StructError"
    unfolding m by (auto simp: pack_uint_def)
qed

theorem to_bytes_total_when_fields_fit_witness:
  "(\<exists>bs. to_bytes (Handshake 68 19 BITTORRENT_PSTR_V1 Handshake_RESERVED ''aaaaaaaaaaaaaaaaaaaa'' ''bbbbbbbbbbbbbbbbbbbb'') = Inr bs)
   \<and> (\<exists>bs. to_bytes (KeepAlive 0) = Inr bs)
   \<and> (\<exists>bs. to_bytes (Have 5 4 7) = Inr bs)
   \<and> (to_bytes (Have 5 4 (- 1)) = Inl StructError)
   \<and> (\<exists>bs. to_bytes (Request 13 6 0 0 520) = Inr bs)
   \<and> (to_bytes (Cancel 13 8 0 0 4294967296) = Inl StructError)
   \<and> (\<exists>bs. to_bytes (Bitfield 2 5 [CHR 0xA0]) = Inr bs)
   \<and> (\<exists>bs. to_bytes (Piece 12 7 0 0 ''abc'') = Inr bs)
   \<and> (\<exists>bs. to_bytes (Port 3 9 6881) = Inr bs)
   \<and> (to_bytes (Port 3 9 70000) = Inl StructError)"
proof (intro conjI)
  show "\<exists>bs. to_bytes (Handshake 68 19 BITTORRENT_PSTR_V1 Handshake_RESERVED ''aaaaaaaaaaaaaaaaaaaa'' ''bbbbbbbbbbbbbbbbbbbb'') = Inr bs"
    using to_bytes_total_when_fields_fit [of "''aaaaaaaaaaaaaaaaaaaa''" "''bbbbbbbbbbbbbbbbbbbb''" "Handshake 68 19 BITTORRENT_PSTR_V1 Handshake_RESERVED ''aaaaaaaaaaaaaaaaaaaa'' ''bbbbbbbbbbbbbbbbbbbb''" "0" "0" "0" "''x''" "''x''" "0"]
    by (simp add: Handshake_init_def Handshake_LENGTH_def BITTORRENT_PSTR_V1_def)
  show "\<exists>bs. to_bytes (KeepAlive 0) = Inr bs"
    using to_bytes_total_when_fields_fit [of "''aaaaaaaaaaaaaaaaaaaa''" "''bbbbbbbbbbbbbbbbbbbb''" "KeepAlive 0" "0" "0" "0" "''x''" "''x''" "0"]
    by (simp add: KeepAlive_init_def)
  show "\<exists>bs. to_bytes (Have 5 4 7) = Inr bs"
    using to_bytes_total_when_fields_fit [of "''aaaaaaaaaaaaaaaaaaaa''" "''bbbbbbbbbbbbbbbbbbbb''" "Have 5 4 7" "7" "0" "0" "''x''" "''x''" "0"]
    by (simp add: Have_init_def)
  show "to_bytes (Have 5 4 (- 1)) = Inl StructError"
    using to_bytes_total_when_fields_fit [of "''aaaaaaaaaaaaaaaaaaaa''" "''bbbbbbbbbbbbbbbbbbbb''" "Have 5 4 (- 1)" "- 1" "0" "0" "''x''" "''x''" "0"]
    by (simp add: Have_init_def)
  show "\<exists>bs. to_bytes (Request 13 6 0 0 520) = Inr bs"
    using to_bytes_total_when_fields_fit [of "''aaaaaaaaaaaaaaaaaaaa''" "''bbbbbbbbbbbbbbbbbbbb''" "Request 13 6 0 0 520" "0" "0" "520" "''x''" "''x''" "0"]
    by (simp add: Request_init_def)
  show "to_bytes (Cancel 13 8 0 0 4294967296) = Inl StructError"
    using to_bytes_total_when_fields_fit [of "''aaaaaaaaaaaaaaaaaaaa''" "''bbbbbbbbbbbbbbbbbbbb''" "Cancel 13 8 0 0 4294967296" "0" "0" "4294967296" "''x''" "''x''" "0"]
    by (simp add: Cancel_init_def)
  show "\<exists>bs. to_bytes (Bitfield 2 5 [CHR 0xA0]) = Inr bs"
    using to_bytes_total_when_fields_fit [of "''aaaaaaaaaaaaaaaaaaaa''" "''bbbbbbbbbbbbbbbbbbbb''" "Bitfield 2 5 [CHR 0xA0]" "0" "0" "0" "[CHR 0xA0]" "''x''" "0"]
    by (simp add: Bitfield_init_def)
  show "\<exists>bs. to_bytes (Piece 12 7 0 0 ''abc'') = Inr bs"
    using to_bytes_total_when_fields_fit [of "''aaaaaaaaaaaaaaaaaaaa''" "''bbbbbbbbbbbbbbbbbbbb''" "Piece 12 7 0 0 ''abc''" "0" "0" "0" "''x''" "''abc''" "0"]
    by (simp add: Piece_init_def)
  show "\<exists>bs. to_bytes (Port 3 9 6881) = Inr bs"
    using to_bytes_total_when_fields_fit [of "''aaaaaaaaaaaaaaaaaaaa''" "''bbbbbbbbbbbbbbbbbbbb''" "Port 3 9 6881" "0" "0" "0" "''x''" "''x''" "6881"]
    by (simp add: Port_init_def isinstance_int_def)
  show "to_bytes (Port 3 9 70000) = Inl StructError"
    using to_bytes_total_when_fields_fit [of "''aaaaaaaaaaaaaaaaaaaa''" "''bbbbbbbbbbbbbbbbbbbb''" "Port 3 9 70000" "0" "0" "0" "''x''" "''x''" "70000"]
    by (simp add: Port_init_def isinstance_int_def)
qed

subsection \<open>The dispatcher\<close>

text \<open>
  Claim C7. \<^verbatim>\<open>decode_message\<close> rejects a payload shorter than 4 bytes, returns
  \<^verbatim>\<open>KeepAlive\<close> for any payload of exactly 4 bytes, hands a longer payload whose first
  byte is 19 to \<^verbatim>\<open>Handshake.from_bytes\<close> (which succeeds exactly on 68 bytes), and
  otherwise looks the 5th byte up in the table of identifiers 0 to 9, delegating to the
  class's \<^verbatim>\<open>from_bytes\<close> or failing with the unknown-identifier error. A serialised
  \<^verbatim>\<open>Choke\<close> decodes to an equal \<^verbatim>\<open>Choke\<close>.
\<close>

theorem decode_message_dispatch:
  "(length p < 4 \<longrightarrow>
      decode_message p
        = Inl (InvalidMessageStructure ''Valid messages must be at least 4 bytes in length.''))
   \<and> (length p = 4 \<longrightarrow> decode_message p = Inr (KeepAlive 0))
   \<and> (4 < length p \<and> of_char (p ! 0) = (19 :: nat) \<longrightarrow>
        decode_message p = Handshake_from_bytes p
        \<and> (length p = 68 \<longrightarrow>
             decode_message p
               = Inr (Handshake 68 19 BITTORRENT_PSTR_V1 Handshake_RESERVED
                        (slice p 28 48) (slice p 48 68)))
        \<and> (length p \<noteq> 68 \<longrightarrow> (\<exists>e. decode_message p = Inl e)))
   \<and> (4 < length p \<and> of_char (p ! 0) \<noteq> (19 :: nat) \<longrightarrow>
        (of_char (p ! 4) = (0 :: nat) \<longrightarrow> decode_message p = IDMessage_from_bytes Choke_init p)
      \<and> (of_char (p ! 4) = (1 :: nat) \<longrightarrow> decode_message p = IDMessage_from_bytes Unchoke_init p)
      \<and> (of_char (p ! 4) = (2 :: nat) \<longrightarrow>
           decode_message p = IDMessage_from_bytes Interested_init p)
      \<and> (of_char (p ! 4) = (3 :: nat) \<longrightarrow>
           decode_message p = IDMessage_from_bytes NotInterested_init p)
      \<and> (of_char (p ! 4) = (4 :: nat) \<longrightarrow> decode_message p = Have_from_bytes p)
      \<and> (of_char (p ! 4) = (5 :: nat) \<longrightarrow> decode_message p = Bitfield_from_bytes p)
      \<and> (of_char (p ! 4) = (6 :: nat) \<longrightarrow> decode_message p = Request_from_bytes p)
      \<and> (of_char (p ! 4) = (7 :: nat) \<longrightarrow> decode_message p = Piece_from_bytes p)
      \<and> (of_char (p ! 4) = (8 :: nat) \<longrightarrow> decode_message p = Cancel_from_bytes p)
      \<and> (of_char (p ! 4) = (9 :: nat) \<longrightarrow> decode_message p = Port_from_bytes p)
      \<and> ((9 :: nat) < of_char (p ! 4) \<longrightarrow>
           decode_message p = Inl (InvalidMessageStructure ''Unknown message ID.'')))
   \<and> (\<exists>c bs. Choke_init = Inr c \<and> to_bytes c = Inr bs \<and> decode_message bs = Inr c)"
proof (intro conjI)
  show "length p < 4 \<longrightarrow>
      decode_message p
        = Inl (InvalidMessageStructure ''Valid messages must be at least 4 bytes in length.'')"
    by (simp add: decode_message_def)
  show "length p = 4 \<longrightarrow> decode_message p = Inr (KeepAlive 0)"
    by (simp add: decode_message_def KeepAlive_init_def)
  show "4 < length p \<and> of_char (p ! 0) = (19 :: nat) \<longrightarrow>
        decode_message p = Handshake_from_bytes p
        \<and> (length p = 68 \<longrightarrow>
             decode_message p
               = Inr (Handshake 68 19 BITTORRENT_PSTR_V1 Handshake_RESERVED
                        (slice p 28 48) (slice p 48 68)))
        \<and> (length p \<noteq> 68 \<longrightarrow> (\<exists>e. decode_message p = Inl e))"
    by (simp add: decode_message_def Handshake_from_bytes_def Handshake_LENGTH_68
        Handshake_init_def slice_def BITTORRENT_PSTR_V1_def)
  show "4 < length p \<and> of_char (p ! 0) \<noteq> (19 :: nat) \<longrightarrow>
        (of_char (p ! 4) = (0 :: nat) \<longrightarrow> decode_message p = IDMessage_from_bytes Choke_init p)
      \<and> (of_char (p ! 4) = (1 :: nat) \<longrightarrow> decode_message p = IDMessage_from_bytes Unchoke_init p)
      \<and> (of_char (p ! 4) = (2 :: nat) \<longrightarrow>
           decode_message p = IDMessage_from_bytes Interested_init p)
      \<and> (of_char (p ! 4) = (3 :: nat) \<longrightarrow>
           decode_message p = IDMessage_from_bytes NotInterested_init p)
      \<and> (of_char (p ! 4) = (4 :: nat) \<longrightarrow> decode_message p = Have_from_bytes p)
      \<and> (of_char (p ! 4) = (5 :: nat) \<longrightarrow> decode_message p = Bitfield_from_bytes p)
      \<and> (of_char (p ! 4) = (6 :: nat) \<longrightarrow> decode_message p = Request_from_bytes p)
      \<and> (of_char (p ! 4) = (7 :: nat) \<longrightarrow> decode_message p = Piece_from_bytes p)
      \<and> (of_char (p ! 4) = (8 :: nat) \<longrightarrow> decode_message p = Cancel_from_bytes p)
      \<and> (of_char (p ! 4) = (9 :: nat) \<longrightarrow> decode_message p = Port_from_bytes p)
      \<and> ((9 :: nat) < of_char (p ! 4) \<longrightarrow>
           decode_message p = Inl (InvalidMessageStructure ''Unknown message ID.''))"
    by (simp add: decode_message_def MESSAGE_CLASS_def)
  show "\<exists>c bs. Choke_init = Inr c \<and> to_bytes c = Inr bs \<and> decode_message bs = Inr c"
    using Choke_to_bytes Choke_dispatch by (simp add: Choke_init_def)
qed

theorem decode_message_dispatch_witness:
  "decode_message ''abc''
     = Inl (InvalidMessageStructure ''Valid messages must be at least 4 bytes in length.'')
   \<and> decode_message ''abcd'' = Inr (KeepAlive 0)
   \<and> decode_message (CHR 0x13 # ''BitTorrent protocol''
                       @ [CHR 0x00, CHR 0x00, CHR 0x00, CHR 0x00, CHR 0x00, CHR 0x00, CHR 0x00, CHR 0x00]
                       @ ''aaaaaaaaaaaaaaaaaaaa'' @ ''bbbbbbbbbbbbbbbbbbbb'')
       = Inr (Handshake 68 19 BITTORRENT_PSTR_V1 Handshake_RESERVED
                ''aaaaaaaaaaaaaaaaaaaa'' ''bbbbbbbbbbbbbbbbbbbb'')
   \<and> (\<exists>e. decode_message [CHR 0x13, CHR 0x00, CHR 0x00, CHR 0x00, CHR 0x00] = Inl e)
   \<and> decode_message [CHR 0x00, CHR 0x00, CHR 0x00, CHR 0x01, CHR 0x01] = Inr (Unchoke 1 1)
   \<and> decode_message [CHR 0x00, CHR 0x00, CHR 0x00, CHR 0x01, CHR 0x0A]
       = Inl (InvalidMessageStructure ''Unknown message ID.'')"
proof (intro conjI)
  show "decode_message ''abc''
     = Inl (InvalidMessageStructure ''Valid messages must be at least 4 bytes in length.'')"
    using decode_message_dispatch [of "''abc''"] by simp
  show "decode_message ''abcd'' = Inr (KeepAlive 0)"
    using decode_message_dispatch [of "''abcd''"] by simp
  show "decode_message (CHR 0x13 # ''BitTorrent protocol''
                       @ [CHR 0x00, CHR 0x00, CHR 0x00, CHR 0x00, CHR 0x00, CHR 0x00, CHR 0x00, CHR 0x00]
                       @ ''aaaaaaaaaaaaaaaaaaaa'' @ ''bbbbbbbbbbbbbbbbbbbb'')
       = Inr (Handshake 68 19 BITTORRENT_PSTR_V1 Handshake_RESERVED
                ''aaaaaaaaaaaaaaaaaaaa'' ''bbbbbbbbbbbbbbbbbbbb'')"
  proof -
    let ?p = "CHR 0x13 # ''BitTorrent protocol''
                @ [CHR 0x00, CHR 0x00, CHR 0x00, CHR 0x00, CHR 0x00, CHR 0x00, CHR 0x00, CHR 0x00]
                @ ''aaaaaaaaaaaaaaaaaaaa'' @ ''bbbbbbbbbbbbbbbbbbbb''"
    have h: "4 < length ?p \<and> of_char (?p ! 0) = (19 :: nat)" by simp
    from decode_message_dispatch [of ?p] h
    have "length ?p = 68 \<longrightarrow>
             decode_message ?p
               = Inr (Handshake 68 19 BITTORRENT_PSTR_V1 Handshake_RESERVED
                        (slice ?p 28 48) (slice ?p 48 68))" by blast
    then show ?thesis by (simp add: slice_def)
  qed
  show "\<exists>e. decode_message [CHR 0x13, CHR 0x00, CHR 0x00, CHR 0x00, CHR 0x00] = Inl e"
  proof -
    let ?p = "[CHR 0x13, CHR 0x00, CHR 0x00, CHR 0x00, CHR 0x00]"
    have h: "4 < length ?p \<and> of_char (?p ! 0) = (19 :: nat)" by simp
    from decode_message_dispatch [of ?p] h
    have "length ?p \<noteq> 68 \<longrightarrow> (\<exists>e. decode_message ?p = Inl e)" by blast
    then show ?thesis by simp
  qed
  show "decode_message [CHR 0x00, CHR 0x00, CHR 0x00, CHR 0x01, CHR 0x01] = Inr (Unchoke 1 1)"
    using decode_message_dispatch [of "[CHR 0x00, CHR 0x00, CHR 0x00, CHR 0x01, CHR 0x01]"]
    by (simp add: IDMessage_from_bytes_def Unchoke_init_def)
  show "decode_message [CHR 0x00, CHR 0x00, CHR 0x00, CHR 0x01, CHR 0x0A]
       = Inl (InvalidMessageStructure ''Unknown message ID.'')"
    using decode_message_dispatch [of "[CHR 0x00, CHR 0x00, CHR 0x00, CHR 0x01, CHR 0x0A]"]
    by simp
qed

subsection \<open>Handshake\<close>

text \<open>
  Claim C8. The constructor of \<^verbatim>\<open>Handshake\<close> fails unless the info hash and the peer
  id are 20 bytes each; \<^verbatim>\<open>Handshake.from_bytes\<close> fails unless the payload is 68 bytes;
  and for a 20-byte info hash and a 20-byte peer id the serialised handshake is 68 bytes
  long and parses back to an equal object.
\<close>

theorem handshake_roundtrip:
  "(length info_hash \<noteq> 20 \<or> length peer_id \<noteq> 20 \<longrightarrow>
      (\<exists>e. Handshake_init info_hash peer_id = Inl e))
   \<and> (length payload \<noteq> 68 \<longrightarrow> (\<exists>e. Handshake_from_bytes payload = Inl e))
   \<and> (length info_hash = 20 \<and> length peer_id = 20 \<longrightarrow>
        (\<exists>h bs. Handshake_init info_hash peer_id = Inr h \<and> to_bytes h = Inr bs
                 \<and> length bs = 68 \<and> Handshake_from_bytes bs = Inr h))"
proof (intro conjI impI)
  assume "length info_hash \<noteq> 20 \<or> length peer_id \<noteq> 20"
  then show "\<exists>e. Handshake_init info_hash peer_id = Inl e"
    by (auto simp: Handshake_init_def)
next
  assume "length payload \<noteq> 68"
  then show "\<exists>e. Handshake_from_bytes payload = Inl e"
    by (simp add: Handshake_from_bytes_def Handshake_LENGTH_68)
next
  assume len: "length info_hash = 20 \<and> length peer_id = 20"
  let ?h = "Handshake 68 19 BITTORRENT_PSTR_V1 Handshake_RESERVED info_hash peer_id"
  let ?bs = "CHR 0x13 # BITTORRENT_PSTR_V1 @ Handshake_RESERVED @ info_hash @ peer_id"
  have init: "Handshake_init info_hash peer_id = Inr ?h"
    using len by (simp add: Handshake_init_def Handshake_LENGTH_68 BITTORRENT_PSTR_V1_def)
  have ser: "to_bytes ?h = Inr ?bs"
    unfolding Handshake_to_bytes using len by simp
  have l68: "length ?bs = 68"
    using len by (simp add: BITTORRENT_PSTR_V1_def Handshake_RESERVED_def)
  have s1: "slice ?bs 28 48 = info_hash"
    using len by (simp add: slice_def BITTORRENT_PSTR_V1_def Handshake_RESERVED_def)
  have s2: "slice ?bs 48 68 = peer_id"
    using len by (simp add: slice_def BITTORRENT_PSTR_V1_def Handshake_RESERVED_def)
  have reparse: "Handshake_from_bytes ?bs = Inr ?h"
    unfolding Handshake_from_bytes_def s1 s2 using l68 init by (simp add: Handshake_LENGTH_68)
  show "\<exists>h bs. Handshake_init info_hash peer_id = Inr h \<and> to_bytes h = Inr bs
                 \<and> length bs = 68 \<and> Handshake_from_bytes bs = Inr h"
    using init ser l68 reparse by blast
qed

theorem handshake_roundtrip_witness:
  "(\<exists>e. Handshake_init ''short'' ''bbbbbbbbbbbbbbbbbbbb'' = Inl e)
   \<and> (\<exists>e. Handshake_from_bytes ''abc'' = Inl e)
   \<and> (\<exists>h bs. Handshake_init ''aaaaaaaaaaaaaaaaaaaa'' ''bbbbbbbbbbbbbbbbbbbb'' = Inr h
         \<and> to_bytes h = Inr bs \<and> length bs = 68 \<and> Handshake_from_bytes bs = Inr h)"
  using handshake_roundtrip [of "''short''" "''bbbbbbbbbbbbbbbbbbbb''" "''abc''"]
        handshake_roundtrip [of "''aaaaaaaaaaaaaaaaaaaa''" "''bbbbbbbbbbbbbbbbbbbb''" "''abc''"]
  by simp

subsection \<open>What \<^verbatim>\<open>from_bytes\<close> looks at\<close>

text \<open>
  Claim C10. The \<^verbatim>\<open>from_bytes\<close> of a fixed-size message with an identifier checks
  only the total length and reads only the field bytes: whatever the first five bytes
  (length prefix and identifier) are, \<^verbatim>\<open>Choke.from_bytes\<close> on five bytes returns the
  \<^verbatim>\<open>Choke\<close> with \<^verbatim>\<open>msg_len\<close> 1 and \<^verbatim>\<open>msg_id\<close> 0, and likewise for the other classes.
\<close>

theorem from_bytes_ignores_prefix_and_id:
  "(length p = 5 \<longrightarrow>
      IDMessage_from_bytes Choke_init p = Inr (Choke 1 0)
    \<and> IDMessage_from_bytes Unchoke_init p = Inr (Unchoke 1 1)
    \<and> IDMessage_from_bytes Interested_init p = Inr (Interested 1 2)
    \<and> IDMessage_from_bytes NotInterested_init p = Inr (NotInterested 1 3))
   \<and> (length p = 5 \<and> length f1 = 4 \<and> length f2 = 4 \<and> length f3 = 4 \<and> length f4 = 2 \<longrightarrow>
      Have_from_bytes (p @ f1) = Inr (Have 5 4 (unpack_uint f1))
    \<and> Request_from_bytes (p @ f1 @ f2 @ f3)
        = Inr (Request 13 6 (unpack_uint f1) (unpack_uint f2) (unpack_uint f3))
    \<and> Cancel_from_bytes (p @ f1 @ f2 @ f3)
        = Inr (Cancel 13 8 (unpack_uint f1) (unpack_uint f2) (unpack_uint f3))
    \<and> Port_from_bytes (p @ f4) = Inr (Port 3 9 (unpack_uint f4)))"
  by (simp add: IDMessage_from_bytes_def Choke_init_def Unchoke_init_def Interested_init_def
      NotInterested_init_def Have_from_bytes_def Have_init_def Request_from_bytes_def
      Request_init_def Cancel_from_bytes_def Cancel_init_def Port_from_bytes_def Port_init_def
      isinstance_int_def slice_def)

theorem from_bytes_ignores_prefix_and_id_witness:
  "IDMessage_from_bytes Choke_init ''hello'' = Inr (Choke 1 0)
   \<and> IDMessage_from_bytes Choke_init [CHR 0xFF, CHR 0xFF, CHR 0xFF, CHR 0xFF, CHR 0x09] = Inr (Choke 1 0)
   \<and> Have_from_bytes (''hello'' @ [CHR 0x00, CHR 0x00, CHR 0x01, CHR 0x02]) = Inr (Have 5 4 258)
   \<and> Port_from_bytes (''hello'' @ [CHR 0x1A, CHR 0xE1]) = Inr (Port 3 9 6881)"
  using from_bytes_ignores_prefix_and_id [of "''hello''" "[CHR 0x00, CHR 0x00, CHR 0x01, CHR 0x02]"
            "''abcd''" "''abcd''" "[CHR 0x1A, CHR 0xE1]"]
        from_bytes_ignores_prefix_and_id [of "[CHR 0xFF, CHR 0xFF, CHR 0xFF, CHR 0xFF, CHR 0x09]"
            "''abcd''" "''abcd''" "''abcd''" "''ab''"]
  by (simp add: unpack_uint_def)

section \<open>Properties of the bencoding codec\<close>

subsection \<open>Decimal text: \<^verbatim>\<open>str\<close> and \<^verbatim>\<open>int\<close> are inverse on integers\<close>

lemma digit_char_isdigit: "d < 10 \<Longrightarrow> py_isdigit (char_of (48 + d :: nat))"
  by (simp add: py_isdigit_def)

lemma digit_char_val: "d < 10 \<Longrightarrow> digit_val (char_of (48 + d :: nat)) = int d"
  by (simp add: digit_val_def)

lemma digit_range: "(n \<in> {48, 49, 50, 51, 52, 53, 54, 55, 56, 57 :: nat}) \<longleftrightarrow> (48 \<le> n \<and> n \<le> 57)"
  by (simp only: insert_iff empty_iff) arith

lemma isdigit_in_table: "py_isdigit c \<longleftrightarrow> c \<in> set ''0123456789''"
proof -
  have "c \<in> set ''0123456789'' \<longleftrightarrow> (of_char c :: nat) \<in> of_char ` set ''0123456789''"
    by (simp only: inj_image_mem_iff [OF inj_of_char])
  also have "\<dots> \<longleftrightarrow> (of_char c :: nat) \<in> {48, 49, 50, 51, 52, 53, 54, 55, 56, 57}"
    by simp
  also have "\<dots> \<longleftrightarrow> py_isdigit c"
    unfolding py_isdigit_def by (rule digit_range)
  finally show ?thesis by simp
qed

lemma str_nat_digits: "c \<in> set (str_nat n) \<Longrightarrow> py_isdigit c"
proof (induction n arbitrary: c rule: str_nat.induct)
  case (1 n)
  show ?case
  proof (cases "n < 10")
    case True
    with "1.prems" show ?thesis
      by (simp add: str_nat.simps [of n] digit_char_isdigit)
  next
    case False
    with "1.prems" "1.IH" show ?thesis
      by (auto simp: str_nat.simps [of n] digit_char_isdigit)
  qed
qed

lemma str_nat_nonempty: "str_nat n \<noteq> []"
  by (subst str_nat.simps) simp


lemma isdigit_not_special:
  assumes "py_isdigit c"
  shows "c \<noteq> CHR ''_''" "\<not> py_isspace c" "c \<noteq> CHR ''+''" "c \<noteq> CHR ''-''"
        "c \<noteq> CHR '':''" "c \<noteq> CHR ''e''"
  using assms by (auto simp: py_isdigit_def py_isspace_def)

lemma scan_digits_all:
  "\<forall>c \<in> set ds. py_isdigit c \<Longrightarrow> prev \<noteq> CHR ''_'' \<Longrightarrow>
   scan_digits prev acc ds = Some (foldl (\<lambda>a c. a * 10 + digit_val c) acc ds, [])"
proof (induction ds arbitrary: prev acc)
  case Nil
  then show ?case by simp
next
  case (Cons d ds)
  then have d: "py_isdigit d" and ds: "\<forall>c \<in> set ds. py_isdigit c" by simp_all
  from d have nu: "d \<noteq> CHR ''_''" by (rule isdigit_not_special)
  show ?case using Cons.IH [OF ds nu] d nu by simp
qed

lemma dval_str_nat: "foldl (\<lambda>a c. a * 10 + digit_val c) 0 (str_nat n) = int n"
proof (induction n rule: str_nat.induct)
  case (1 n)
  show ?case
  proof (cases "n < 10")
    case True
    then show ?thesis by (simp add: str_nat.simps [of n] digit_char_val)
  next
    case False
    then have "foldl (\<lambda>a c. a * 10 + digit_val c) 0 (str_nat n)
               = int (n div 10) * 10 + int (n mod 10)"
      using "1.IH" by (simp add: str_nat.simps [of n] digit_char_val)
    then show ?thesis by (simp add: zdiv_int zmod_int)
  qed
qed

lemma str_nat_Cons: "\<exists>c cs. str_nat n = c # cs \<and> py_isdigit c"
proof -
  obtain c cs where eq: "str_nat n = c # cs"
    using str_nat_nonempty [of n] by (cases "str_nat n") auto
  then have "c \<in> set (str_nat n)" by simp
  then have "py_isdigit c" by (rule str_nat_digits)
  with eq show ?thesis by blast
qed

lemma py_int_str_nat: "py_int (str_nat n) = Some (int n)"
proof -
  obtain c cs where eq: "str_nat n = c # cs" and c: "py_isdigit c"
    using str_nat_Cons by blast
  have all: "\<forall>x \<in> set (c # cs). py_isdigit x"
    using str_nat_digits [of _ n] eq by auto
  have scan: "scan_digits (CHR 0x00) 0 (c # cs) = Some (int n, [])"
    using scan_digits_all [OF all, of "CHR 0x00" 0] dval_str_nat [of n] eq by simp
  show ?thesis
    unfolding py_int_def eq using c isdigit_not_special [OF c] scan by (simp add: Let_def)
qed

lemma py_int_neg_str_nat: "py_int (CHR ''-'' # str_nat n) = Some (- int n)"
proof -
  obtain c cs where eq: "str_nat n = c # cs" and c: "py_isdigit c"
    using str_nat_Cons by blast
  have all: "\<forall>x \<in> set (c # cs). py_isdigit x"
    using str_nat_digits [of _ n] eq by auto
  have scan: "scan_digits (CHR 0x00) 0 (c # cs) = Some (int n, [])"
    using scan_digits_all [OF all, of "CHR 0x00" 0] dval_str_nat [of n] eq by simp
  have sp: "\<not> py_isspace (CHR ''-'')" by (simp add: py_isspace_def)
  show ?thesis
    unfolding py_int_def eq using c sp scan by (simp add: Let_def)
qed

lemma py_int_str_int: "py_int (str_int i) = Some i"
  by (simp add: str_int_def py_int_str_nat py_int_neg_str_nat)

lemma digit_char_zero: "n < 10 \<Longrightarrow> char_of (48 + n :: nat) = CHR ''0'' \<Longrightarrow> n = 0"
proof -
  assume n: "n < 10" and eq: "char_of (48 + n :: nat) = CHR ''0''"
  from eq have "(of_char (char_of (48 + n :: nat)) :: nat) = of_char (CHR ''0'')" by simp
  with n show "n = 0" by simp
qed

lemma str_nat_hd_nonzero: "0 < n \<Longrightarrow> hd (str_nat n) \<noteq> CHR ''0''"
proof (induction n rule: str_nat.induct)
  case (1 n)
  show ?case
  proof (cases "n < 10")
    case True
    with "1.prems" digit_char_zero [of n] show ?thesis by (auto simp: str_nat.simps [of n])
  next
    case False
    then have "0 < n div 10" by simp
    with False "1.IH" have "hd (str_nat (n div 10)) \<noteq> CHR ''0''" by simp
    with False show ?thesis
      by (simp add: str_nat.simps [of n] str_nat_nonempty)
  qed
qed

lemma str_nat_single: "n < 10 \<Longrightarrow> length (str_nat n) = 1"
  by (simp add: str_nat.simps [of n])

lemma str_int_no_leading_zero:
  "\<not> (length (str_int i) > 1 \<and>
       (str_int i ! 0 = CHR ''0'' \<or> (str_int i ! 0 = CHR ''-'' \<and> str_int i ! 1 = CHR ''0'')))"
proof (cases "i < 0")
  case True
  then have pos: "0 < nat (- i)" by simp
  have "str_int i ! 1 = hd (str_nat (nat (- i)))"
    using True str_nat_nonempty [of "nat (- i)"] by (simp add: str_int_def hd_conv_nth)
  with True str_nat_hd_nonzero [OF pos] show ?thesis by (simp add: str_int_def)
next
  case False
  obtain c cs where eq: "str_nat (nat i) = c # cs" and c: "py_isdigit c"
    using str_nat_Cons by blast
  have nm: "c \<noteq> CHR ''-''" using c by (rule isdigit_not_special)
  show ?thesis
  proof (cases "nat i < 10")
    case True
    with False show ?thesis by (simp add: str_int_def str_nat_single)
  next
    case ge: False
    then have "0 < nat i" by simp
    from str_nat_hd_nonzero [OF this] eq have "c \<noteq> CHR ''0''" by simp
    with False eq nm show ?thesis by (simp add: str_int_def)
  qed
qed

lemma str_int_chars: "c \<in> set (str_int i) \<Longrightarrow> c \<noteq> CHR '':'' \<and> c \<noteq> CHR ''e''"
  using str_nat_digits isdigit_not_special(5,6)
  by (auto simp: str_int_def split: if_splits)

lemma str_int_nonempty: "str_int i \<noteq> []"
  by (simp add: str_int_def str_nat_nonempty)

lemma str_int_nat_hd: "py_isdigit (hd (str_int (int n)))"
  using str_nat_Cons [of n] by (auto simp: str_int_def)

subsection \<open>Searching and slicing inside a buffer\<close>

lemma adjust_index_int: "adjust_index n (int k) = min k n"
  by (simp add: adjust_index_def)

lemma getitem_at: "i = int (length pre) \<Longrightarrow> getitem (pre @ c # suf) i = Inr c"
  by (simp add: getitem_def Let_def)

lemma index_of_first: "c \<notin> set xs \<Longrightarrow> index_of c (xs @ c # suf) = Some (length xs)"
  by (induction xs) auto

lemma find_at:
  "c \<notin> set xs \<Longrightarrow> i = int (length pre) \<Longrightarrow>
   find (pre @ xs @ c # suf) c i = int (length pre) + int (length xs)"
  by (simp add: find_def adjust_index_int index_of_first)

lemma py_slice_mid:
  "i = int (length pre) \<Longrightarrow> j = int (length pre) + int (length xs) \<Longrightarrow>
   py_slice (pre @ xs @ suf) i j = xs"
proof -
  assume i: "i = int (length pre)" and j: "j = int (length pre) + int (length xs)"
  have j': "j = int (length pre + length xs)" using j by simp
  show ?thesis
    unfolding py_slice_def i j' adjust_index_int by (simp add: Let_def)
qed

lemma decode_str_correct:
  "decode_str (pre @ str_int (int (length b)) @ CHR '':'' # b @ suf) (int (length pre))
   = Inr (PyBytes b,
          int (length pre) + int (length (str_int (int (length b)))) + 1 + int (length b))"
proof -
  let ?ds = "str_int (int (length b))"
  let ?data = "pre @ ?ds @ CHR '':'' # b @ suf"
  let ?i = "int (length pre)"
  have nocolon: "CHR '':'' \<notin> set ?ds" using str_int_chars by blast
  have colon: "find ?data (CHR '':'') ?i = ?i + int (length ?ds)"
    using find_at [OF nocolon refl] .
  have len: "py_slice ?data ?i (?i + int (length ?ds)) = ?ds"
    using py_slice_mid [OF refl refl, of pre ?ds "CHR '':'' # b @ suf"] by simp
  have body: "py_slice ?data (?i + int (length ?ds) + 1) (?i + int (length ?ds) + 1 + int (length b))
              = b"
    using py_slice_mid [of "?i + int (length ?ds) + 1" "pre @ ?ds @ [CHR '':'']"
                           "?i + int (length ?ds) + 1 + int (length b)" b suf]
    by simp
  show ?thesis
    unfolding decode_str_def colon
    by (simp add: Let_def len py_int_str_int body)
qed

lemma decode_int_correct:
  "decode_int (pre @ CHR ''i'' # str_int v @ CHR ''e'' # suf) (int (length pre))
   = Inr (PyInt v, int (length pre) + 1 + int (length (str_int v)) + 1)"
proof -
  let ?ds = "str_int v"
  let ?data = "pre @ CHR ''i'' # ?ds @ CHR ''e'' # suf"
  let ?i = "int (length pre)"
  have noe: "CHR ''e'' \<notin> set ?ds" using str_int_chars by blast
  have e: "find ?data (CHR ''e'') (?i + 1) = ?i + 1 + int (length ?ds)"
    using find_at [OF noe, of "?i + 1" "pre @ [CHR ''i'']" suf] by simp
  have sl: "py_slice ?data (?i + 1) (?i + 1 + int (length ?ds)) = ?ds"
    using py_slice_mid [of "?i + 1" "pre @ [CHR ''i'']" "?i + 1 + int (length ?ds)" ?ds
                           "CHR ''e'' # suf"]
    by simp
  have ne: "?i + 1 + int (length ?ds) \<noteq> - 1" by simp
  show ?thesis
    unfolding decode_int_def Let_def e sl
    using ne str_int_no_leading_zero [of v] by (simp add: py_int_str_int)
qed

subsection \<open>The encoder follows the encoding rules\<close>

lemma bencoding_Cons:
  "value_shape v \<Longrightarrow> \<exists>c cs. bencoding v = c # cs \<and> c \<noteq> CHR ''e''"
proof (cases v)
  case (PyBytes b)
  obtain c cs where eq: "str_nat (length b) = c # cs" and c: "py_isdigit c"
    using str_nat_Cons by blast
  from c have "c \<noteq> CHR ''e''" by (rule isdigit_not_special)
  with PyBytes eq show ?thesis by (simp add: str_int_def)
qed simp_all

lemma encode_func_shape:
  "value_shape v \<longrightarrow>
     (\<forall>acc. \<exists>acc'. encode_func v acc = Inr acc' \<and> concat acc' = concat acc @ bencoding v)"
  and encode_list_shape:
  "list_shape lst \<longrightarrow>
     (\<forall>acc. \<exists>acc'. encode_list lst acc = Inr acc' \<and> concat acc' = concat acc @ bencoding_list lst)"
  and encode_dict_shape:
  "items_shape d \<longrightarrow>
     (\<forall>acc. \<exists>acc'. encode_dict d acc = Inr acc' \<and> concat acc' = concat acc @ bencoding_items d)"
proof (induction v and lst and d rule: value_shape_list_shape_items_shape.induct)
  case (1 b)
  show ?case by (simp add: encode_bytes_def)
next
  case (2 i)
  show ?case by (simp add: encode_int_def)
next
  case (3 lst)
  show ?case
  proof (intro impI allI)
    fix acc
    assume "value_shape (PyList lst)"
    then have "list_shape lst" by simp
    with 3 obtain acc' where "encode_list lst (acc @ [''l'']) = Inr acc'"
      and "concat acc' = concat (acc @ [''l'']) @ bencoding_list lst" by blast
    then show "\<exists>acc'. encode_func (PyList lst) acc = Inr acc'
                 \<and> concat acc' = concat acc @ bencoding (PyList lst)"
      by simp
  qed
next
  case (4 d)
  show ?case
  proof (intro impI allI)
    fix acc
    assume "value_shape (PyDict d)"
    then have "items_shape d" by simp
    with 4 obtain acc' where "encode_dict d (acc @ [''d'']) = Inr acc'"
      and "concat acc' = concat (acc @ [''d'']) @ bencoding_items d" by blast
    then show "\<exists>acc'. encode_func (PyDict d) acc = Inr acc'
                 \<and> concat acc' = concat acc @ bencoding (PyDict d)"
      by simp
  qed
next
  case (10 v lst)
  show ?case
  proof (intro impI allI)
    fix acc
    assume "list_shape (v # lst)"
    then have v: "value_shape v" and l: "list_shape lst" by simp_all
    from v 10 obtain a1 where a1: "encode_func v acc = Inr a1"
      "concat a1 = concat acc @ bencoding v" by blast
    from l 10 obtain a2 where a2: "encode_list lst a1 = Inr a2"
      "concat a2 = concat a1 @ bencoding_list lst" by blast
    from a1 a2 show "\<exists>acc'. encode_list (v # lst) acc = Inr acc'
                 \<and> concat acc' = concat acc @ bencoding_list (v # lst)"
      by simp
  qed
next
  case (12 k v d)
  show ?case
  proof (intro impI allI)
    fix acc
    assume "items_shape ((k, v) # d)"
    then obtain b where k: "k = PyBytes b" and v: "value_shape v" and d: "items_shape d"
      by (cases k) simp_all
    have a0: "encode_func k acc = Inr (acc @ [bencoding k])"
      by (simp add: k encode_bytes_def)
    from v 12 obtain a1 where a1: "encode_func v (acc @ [bencoding k]) = Inr a1"
      "concat a1 = concat (acc @ [bencoding k]) @ bencoding v" by blast
    from d 12 obtain a2 where a2: "encode_dict d a1 = Inr a2"
      "concat a2 = concat a1 @ bencoding_items d" by blast
    from a0 a1 a2 show "\<exists>acc'. encode_dict ((k, v) # d) acc = Inr acc'
                 \<and> concat acc' = concat acc @ bencoding_items ((k, v) # d)"
      by simp
  qed
qed simp_all

lemma encode_shape: "value_shape v \<Longrightarrow> encode v = Inr (bencoding v)"
proof -
  assume "value_shape v"
  with encode_func_shape obtain acc' where "encode_func v [] = Inr acc'"
    and "concat acc' = concat [] @ bencoding v" by blast
  then show ?thesis by (simp add: encode_def)
qed

subsection \<open>One step of the decoder on an encoded value\<close>

lemma isdigit_not_tag:
  assumes "py_isdigit c"
  shows "c \<noteq> CHR ''l''" "c \<noteq> CHR ''d''" "c \<noteq> CHR ''i''"
  using assms by (auto simp: py_isdigit_def)

lemma bdecode_bytes:
  "bencoding (PyBytes b) = c # cs \<Longrightarrow>
   bdecode (Suc m) (pre @ bencoding (PyBytes b) @ suf) c (int (length pre))
   = Some (Inr (PyBytes b, int (length pre) + int (length (bencoding (PyBytes b)))))"
proof -
  assume eq: "bencoding (PyBytes b) = c # cs"
  have "py_isdigit (hd (str_int (int (length b))))" by (rule str_int_nat_hd)
  moreover have "hd (str_int (int (length b))) = c"
    using eq str_int_nonempty [of "int (length b)"] by (cases "str_int (int (length b))") auto
  ultimately have c: "py_isdigit c" by simp
  have tab: "c \<in> set ''0123456789''" using c isdigit_in_table by blast
  have "bdecode (Suc m) (pre @ bencoding (PyBytes b) @ suf) c (int (length pre))
        = Some (decode_str (pre @ str_int (int (length b)) @ CHR '':'' # b @ suf) (int (length pre)))"
    using tab isdigit_not_tag [OF c] by simp
  then show ?thesis by (simp add: decode_str_correct)
qed

lemma bdecode_int:
  "bdecode (Suc m) (pre @ bencoding (PyInt i) @ suf) (CHR ''i'') (int (length pre))
   = Some (Inr (PyInt i, int (length pre) + int (length (bencoding (PyInt i)))))"
proof -
  have "bdecode (Suc m) (pre @ bencoding (PyInt i) @ suf) (CHR ''i'') (int (length pre))
        = Some (decode_int (pre @ CHR ''i'' # str_int i @ CHR ''e'' # suf) (int (length pre)))"
    by simp
  then show ?thesis by (simp add: decode_int_correct)
qed

lemma decode_list_end:
  "decode_list (Suc m) (pre @ CHR ''e'' # suf) (int (length pre)) acc
   = Some (Inr (PyList acc, int (length pre) + 1))"
  by (simp add: getitem_at)

lemma decode_dict_end:
  "decode_dict (Suc m) (pre @ CHR ''e'' # suf) (int (length pre)) acc
   = Some (Inr (PyDict acc, int (length pre) + 1))"
  by (simp add: getitem_at)

lemma decode_list_step:
  assumes c: "c \<noteq> CHR ''e''"
    and el: "bdecode m (pre @ c # rest) c (int (length pre)) = Some (Inr (v, j))"
  shows "decode_list (Suc m) (pre @ c # rest) (int (length pre)) acc
         = decode_list m (pre @ c # rest) j (acc @ [v])"
  using c el by (simp add: getitem_at)

lemma setitem_new: "k \<notin> fst ` set acc \<Longrightarrow> setitem acc k v = acc @ [(k, v)]"
  by (simp add: setitem_def)

lemma decode_dict_step:
  assumes c: "c \<noteq> CHR ''e''"
    and key: "decode_str (pre @ c # rest) (int (length pre)) = Inr (k, j)"
    and c': "getitem (pre @ c # rest) j = Inr c'"
    and el: "bdecode m (pre @ c # rest) c' j = Some (Inr (v, j'))"
    and new: "k \<notin> fst ` set acc"
  shows "decode_dict (Suc m) (pre @ c # rest) (int (length pre)) acc
         = decode_dict m (pre @ c # rest) j' (acc @ [(k, v)])"
  using c key c' el by (simp add: getitem_at setitem_new [OF new])

subsection \<open>Decoding an encoded value\<close>

text \<open>
  For a value of the four shapes, placed anywhere in a buffer, the decoder started at
  its first byte returns the value and leaves the cursor behind its last byte, for
  every bound on the number of calls from some bound on. The three statements go
  through the value, the elements of a list and the items of a mapping together.
\<close>

lemma Suc_fuel: "Suc N \<le> n \<Longrightarrow> \<exists>m. n = Suc m \<and> N \<le> m"
  by (cases n) simp_all

lemma bdecode_roundtrip:
  "value_shape v \<longrightarrow>
     (\<exists>N. \<forall>n\<ge>N. \<forall>pre suf c cs. bencoding v = c # cs \<longrightarrow>
        bdecode n (pre @ bencoding v @ suf) c (int (length pre))
        = Some (Inr (v, int (length pre) + int (length (bencoding v)))))"
  and decode_list_roundtrip:
  "list_shape lst \<longrightarrow>
     (\<exists>N. \<forall>n\<ge>N. \<forall>pre suf acc.
        decode_list n (pre @ bencoding_list lst @ CHR ''e'' # suf) (int (length pre)) acc
        = Some (Inr (PyList (acc @ lst),
                     int (length pre) + int (length (bencoding_list lst)) + 1)))"
  and decode_dict_roundtrip:
  "items_shape d \<longrightarrow>
     (\<exists>N. \<forall>n\<ge>N. \<forall>pre suf acc. distinct (map fst (acc @ d)) \<longrightarrow>
        decode_dict n (pre @ bencoding_items d @ CHR ''e'' # suf) (int (length pre)) acc
        = Some (Inr (PyDict (acc @ d),
                     int (length pre) + int (length (bencoding_items d)) + 1)))"
proof (induction v and lst and d rule: value_shape_list_shape_items_shape.induct)
  case (1 b)
  have "\<forall>n\<ge>Suc 0. \<forall>pre suf c cs. bencoding (PyBytes b) = c # cs \<longrightarrow>
        bdecode n (pre @ bencoding (PyBytes b) @ suf) c (int (length pre))
        = Some (Inr (PyBytes b, int (length pre) + int (length (bencoding (PyBytes b)))))"
  proof (intro allI impI)
    fix n pre suf c cs
    assume n: "Suc 0 \<le> n" and eq: "bencoding (PyBytes b) = c # cs"
    from n obtain m where "n = Suc m" using Suc_fuel by blast
    then show "bdecode n (pre @ bencoding (PyBytes b) @ suf) c (int (length pre))
        = Some (Inr (PyBytes b, int (length pre) + int (length (bencoding (PyBytes b)))))"
      using bdecode_bytes [OF eq] by simp
  qed
  then show ?case by blast
next
  case (2 i)
  have "\<forall>n\<ge>Suc 0. \<forall>pre suf c cs. bencoding (PyInt i) = c # cs \<longrightarrow>
        bdecode n (pre @ bencoding (PyInt i) @ suf) c (int (length pre))
        = Some (Inr (PyInt i, int (length pre) + int (length (bencoding (PyInt i)))))"
  proof (intro allI impI)
    fix n pre suf c cs
    assume n: "Suc 0 \<le> n" and eq: "bencoding (PyInt i) = c # cs"
    from n obtain m where m: "n = Suc m" using Suc_fuel by blast
    from eq have c: "c = CHR ''i''" by simp
    show "bdecode n (pre @ bencoding (PyInt i) @ suf) c (int (length pre))
        = Some (Inr (PyInt i, int (length pre) + int (length (bencoding (PyInt i)))))"
      unfolding m c by (rule bdecode_int)
  qed
  then show ?case by blast
next
  case (3 lst)
  show ?case
  proof
    assume "value_shape (PyList lst)"
    then have "list_shape lst" by simp
    with 3 obtain N where N: "\<And>n pre suf acc. N \<le> n \<Longrightarrow>
        decode_list n (pre @ bencoding_list lst @ CHR ''e'' # suf) (int (length pre)) acc
        = Some (Inr (PyList (acc @ lst),
                     int (length pre) + int (length (bencoding_list lst)) + 1))"
      by blast
    have "\<forall>n\<ge>Suc N. \<forall>pre suf c cs. bencoding (PyList lst) = c # cs \<longrightarrow>
        bdecode n (pre @ bencoding (PyList lst) @ suf) c (int (length pre))
        = Some (Inr (PyList lst, int (length pre) + int (length (bencoding (PyList lst)))))"
    proof (intro allI impI)
      fix n pre suf c cs
      assume n: "Suc N \<le> n" and eq: "bencoding (PyList lst) = c # cs"
      from n obtain m where m: "n = Suc m" and Nm: "N \<le> m" using Suc_fuel by blast
      from eq have c: "c = CHR ''l''" by simp
      have "bdecode (Suc m) (pre @ bencoding (PyList lst) @ suf) (CHR ''l'') (int (length pre))
            = decode_list m ((pre @ ''l'') @ bencoding_list lst @ CHR ''e'' # suf)
                (int (length (pre @ ''l''))) []"
        by (simp add: add.commute)
      also have "\<dots> = Some (Inr (PyList ([] @ lst),
                     int (length (pre @ ''l'')) + int (length (bencoding_list lst)) + 1))"
        by (rule N [OF Nm])
      finally show "bdecode n (pre @ bencoding (PyList lst) @ suf) c (int (length pre))
        = Some (Inr (PyList lst, int (length pre) + int (length (bencoding (PyList lst)))))"
        unfolding m c by simp
    qed
    then show "\<exists>N. \<forall>n\<ge>N. \<forall>pre suf c cs. bencoding (PyList lst) = c # cs \<longrightarrow>
        bdecode n (pre @ bencoding (PyList lst) @ suf) c (int (length pre))
        = Some (Inr (PyList lst, int (length pre) + int (length (bencoding (PyList lst)))))"
      by blast
  qed
next
  case (4 d)
  show ?case
  proof
    assume "value_shape (PyDict d)"
    then have dist: "distinct (map fst d)" and "items_shape d" by simp_all
    with 4 obtain N where N: "\<And>n pre suf acc. N \<le> n \<Longrightarrow> distinct (map fst (acc @ d)) \<Longrightarrow>
        decode_dict n (pre @ bencoding_items d @ CHR ''e'' # suf) (int (length pre)) acc
        = Some (Inr (PyDict (acc @ d),
                     int (length pre) + int (length (bencoding_items d)) + 1))"
      by blast
    have "\<forall>n\<ge>Suc N. \<forall>pre suf c cs. bencoding (PyDict d) = c # cs \<longrightarrow>
        bdecode n (pre @ bencoding (PyDict d) @ suf) c (int (length pre))
        = Some (Inr (PyDict d, int (length pre) + int (length (bencoding (PyDict d)))))"
    proof (intro allI impI)
      fix n pre suf c cs
      assume n: "Suc N \<le> n" and eq: "bencoding (PyDict d) = c # cs"
      from n obtain m where m: "n = Suc m" and Nm: "N \<le> m" using Suc_fuel by blast
      from eq have c: "c = CHR ''d''" by simp
      have "bdecode (Suc m) (pre @ bencoding (PyDict d) @ suf) (CHR ''d'') (int (length pre))
            = decode_dict m ((pre @ ''d'') @ bencoding_items d @ CHR ''e'' # suf)
                (int (length (pre @ ''d''))) []"
        by (simp add: add.commute)
      also have "\<dots> = Some (Inr (PyDict ([] @ d),
                     int (length (pre @ ''d'')) + int (length (bencoding_items d)) + 1))"
        by (rule N [OF Nm]) (simp add: dist)
      finally show "bdecode n (pre @ bencoding (PyDict d) @ suf) c (int (length pre))
        = Some (Inr (PyDict d, int (length pre) + int (length (bencoding (PyDict d)))))"
        unfolding m c by simp
    qed
    then show "\<exists>N. \<forall>n\<ge>N. \<forall>pre suf c cs. bencoding (PyDict d) = c # cs \<longrightarrow>
        bdecode n (pre @ bencoding (PyDict d) @ suf) c (int (length pre))
        = Some (Inr (PyDict d, int (length pre) + int (length (bencoding (PyDict d)))))"
      by blast
  qed
next
  case 9
  have "\<forall>n\<ge>Suc 0. \<forall>pre suf acc.
        decode_list n (pre @ bencoding_list [] @ CHR ''e'' # suf) (int (length pre)) acc
        = Some (Inr (PyList (acc @ []),
                     int (length pre) + int (length (bencoding_list [])) + 1))"
  proof (intro allI impI)
    fix n pre suf acc
    assume "Suc 0 \<le> n"
    then obtain m where m: "n = Suc m" using Suc_fuel by blast
    show "decode_list n (pre @ bencoding_list [] @ CHR ''e'' # suf) (int (length pre)) acc
        = Some (Inr (PyList (acc @ []),
                     int (length pre) + int (length (bencoding_list [])) + 1))"
      unfolding m using decode_list_end [of m pre suf acc] by simp
  qed
  then show ?case by blast
next
  case (10 v lst)
  show ?case
  proof
    assume "list_shape (v # lst)"
    then have v: "value_shape v" and l: "list_shape lst" by simp_all
    from v 10 obtain N1 where N1: "\<And>n pre suf c cs. N1 \<le> n \<Longrightarrow> bencoding v = c # cs \<Longrightarrow>
        bdecode n (pre @ bencoding v @ suf) c (int (length pre))
        = Some (Inr (v, int (length pre) + int (length (bencoding v))))"
      by blast
    from l 10 obtain N2 where N2: "\<And>n pre suf acc. N2 \<le> n \<Longrightarrow>
        decode_list n (pre @ bencoding_list lst @ CHR ''e'' # suf) (int (length pre)) acc
        = Some (Inr (PyList (acc @ lst),
                     int (length pre) + int (length (bencoding_list lst)) + 1))"
      by blast
    from bencoding_Cons [OF v] obtain c cs where eq: "bencoding v = c # cs"
      and c: "c \<noteq> CHR ''e''" by blast
    have "\<forall>n\<ge>Suc (max N1 N2). \<forall>pre suf acc.
        decode_list n (pre @ bencoding_list (v # lst) @ CHR ''e'' # suf) (int (length pre)) acc
        = Some (Inr (PyList (acc @ v # lst),
                     int (length pre) + int (length (bencoding_list (v # lst))) + 1))"
    proof (intro allI impI)
      fix n pre suf acc
      assume "Suc (max N1 N2) \<le> n"
      then obtain m where m: "n = Suc m" and m1: "N1 \<le> m" and m2: "N2 \<le> m"
        using Suc_fuel [of "max N1 N2" n] by auto
      let ?rest = "bencoding_list lst @ CHR ''e'' # suf"
      let ?data = "pre @ bencoding_list (v # lst) @ CHR ''e'' # suf"
      have d1: "?data = pre @ c # (cs @ ?rest)" using eq by simp
      have d2: "?data = pre @ bencoding v @ ?rest" by simp
      have d3: "?data = (pre @ bencoding v) @ bencoding_list lst @ CHR ''e'' # suf" by simp
      have el: "bdecode m ?data c (int (length pre))
                = Some (Inr (v, int (length pre) + int (length (bencoding v))))"
        unfolding d2 by (rule N1 [OF m1 eq])
      have "decode_list (Suc m) ?data (int (length pre)) acc
            = decode_list m ?data (int (length pre) + int (length (bencoding v))) (acc @ [v])"
        using decode_list_step [OF c, of m pre "cs @ ?rest" v
                "int (length pre) + int (length (bencoding v))" acc] el
        unfolding d1 by simp
      also have "\<dots> = decode_list m ((pre @ bencoding v) @ bencoding_list lst @ CHR ''e'' # suf)
                          (int (length (pre @ bencoding v))) (acc @ [v])"
        by simp
      also have "\<dots> = Some (Inr (PyList ((acc @ [v]) @ lst),
                     int (length (pre @ bencoding v)) + int (length (bencoding_list lst)) + 1))"
        by (rule N2 [OF m2])
      finally show "decode_list n ?data (int (length pre)) acc
        = Some (Inr (PyList (acc @ v # lst),
                     int (length pre) + int (length (bencoding_list (v # lst))) + 1))"
        unfolding m by simp
    qed
    then show "\<exists>N. \<forall>n\<ge>N. \<forall>pre suf acc.
        decode_list n (pre @ bencoding_list (v # lst) @ CHR ''e'' # suf) (int (length pre)) acc
        = Some (Inr (PyList (acc @ v # lst),
                     int (length pre) + int (length (bencoding_list (v # lst))) + 1))"
      by blast
  qed
next
  case 11
  have "\<forall>n\<ge>Suc 0. \<forall>pre suf acc. distinct (map fst (acc @ [])) \<longrightarrow>
        decode_dict n (pre @ bencoding_items [] @ CHR ''e'' # suf) (int (length pre)) acc
        = Some (Inr (PyDict (acc @ []),
                     int (length pre) + int (length (bencoding_items [])) + 1))"
  proof (intro allI impI)
    fix n pre suf and acc :: "(pyobj \<times> pyobj) list"
    assume "Suc 0 \<le> n"
    then obtain m where m: "n = Suc m" using Suc_fuel by blast
    show "decode_dict n (pre @ bencoding_items [] @ CHR ''e'' # suf) (int (length pre)) acc
        = Some (Inr (PyDict (acc @ []),
                     int (length pre) + int (length (bencoding_items [])) + 1))"
      unfolding m using decode_dict_end [of m pre suf acc] by simp
  qed
  then show ?case by blast
next
  case (12 k v d)
  show ?case
  proof
    assume "items_shape ((k, v) # d)"
    then obtain b where k: "k = PyBytes b" and v: "value_shape v" and d: "items_shape d"
      by (cases k) simp_all
    from v 12 obtain N1 where N1: "\<And>n pre suf c cs. N1 \<le> n \<Longrightarrow> bencoding v = c # cs \<Longrightarrow>
        bdecode n (pre @ bencoding v @ suf) c (int (length pre))
        = Some (Inr (v, int (length pre) + int (length (bencoding v))))"
      by blast
    from d 12 obtain N2 where N2: "\<And>n pre suf acc. N2 \<le> n \<Longrightarrow> distinct (map fst (acc @ d)) \<Longrightarrow>
        decode_dict n (pre @ bencoding_items d @ CHR ''e'' # suf) (int (length pre)) acc
        = Some (Inr (PyDict (acc @ d),
                     int (length pre) + int (length (bencoding_items d)) + 1))"
      by blast
    have kshape: "value_shape k" by (simp add: k)
    from bencoding_Cons [OF kshape] obtain kc kcs where keq: "bencoding k = kc # kcs"
      and kc: "kc \<noteq> CHR ''e''" by blast
    from bencoding_Cons [OF v] obtain c cs where eq: "bencoding v = c # cs" by blast
    have "\<forall>n\<ge>Suc (max N1 N2). \<forall>pre suf acc. distinct (map fst (acc @ (k, v) # d)) \<longrightarrow>
        decode_dict n (pre @ bencoding_items ((k, v) # d) @ CHR ''e'' # suf) (int (length pre)) acc
        = Some (Inr (PyDict (acc @ (k, v) # d),
                     int (length pre) + int (length (bencoding_items ((k, v) # d))) + 1))"
    proof (intro allI impI)
      fix n pre suf and acc :: "(pyobj \<times> pyobj) list"
      assume "Suc (max N1 N2) \<le> n" and dist: "distinct (map fst (acc @ (k, v) # d))"
      then obtain m where m: "n = Suc m" and m1: "N1 \<le> m" and m2: "N2 \<le> m"
        using Suc_fuel [of "max N1 N2" n] by auto
      let ?rest = "bencoding_items d @ CHR ''e'' # suf"
      let ?data = "pre @ bencoding_items ((k, v) # d) @ CHR ''e'' # suf"
      let ?j = "int (length pre) + int (length (bencoding k))"
      let ?j' = "?j + int (length (bencoding v))"
      have d1: "?data = pre @ kc # (kcs @ bencoding v @ ?rest)" using keq by simp
      have d2: "?data = pre @ str_int (int (length b)) @ CHR '':'' # b @ (bencoding v @ ?rest)"
        by (simp add: k)
      have d3: "?data = (pre @ bencoding k) @ c # (cs @ ?rest)" using eq by simp
      have d4: "?data = (pre @ bencoding k) @ bencoding v @ ?rest" by simp
      have d5: "?data = (pre @ bencoding k @ bencoding v) @ bencoding_items d @ CHR ''e'' # suf"
        by simp
      have key: "decode_str ?data (int (length pre)) = Inr (k, ?j)"
        unfolding d2 by (simp add: decode_str_correct k)
      have gc: "getitem ?data ?j = Inr c"
        unfolding d3 by (rule getitem_at) simp
      have el: "bdecode m ?data c ?j = Some (Inr (v, ?j'))"
        using N1 [OF m1 eq, of "pre @ bencoding k" ?rest] unfolding d4 by simp
      have new: "k \<notin> fst ` set acc" using dist by auto
      have "decode_dict (Suc m) ?data (int (length pre)) acc
            = decode_dict m ?data ?j' (acc @ [(k, v)])"
        using decode_dict_step [OF kc, of pre "kcs @ bencoding v @ ?rest" k ?j c m v ?j' acc]
              key gc el new
        unfolding d1 by simp
      also have "\<dots> = decode_dict m
                          ((pre @ bencoding k @ bencoding v) @ bencoding_items d @ CHR ''e'' # suf)
                          (int (length (pre @ bencoding k @ bencoding v))) (acc @ [(k, v)])"
        by (simp add: add.assoc)
      also have "\<dots> = Some (Inr (PyDict ((acc @ [(k, v)]) @ d),
                     int (length (pre @ bencoding k @ bencoding v))
                     + int (length (bencoding_items d)) + 1))"
        by (rule N2 [OF m2]) (use dist in simp)
      finally show "decode_dict n ?data (int (length pre)) acc
        = Some (Inr (PyDict (acc @ (k, v) # d),
                     int (length pre) + int (length (bencoding_items ((k, v) # d))) + 1))"
        unfolding m by simp
    qed
    then show "\<exists>N. \<forall>n\<ge>N. \<forall>pre suf acc. distinct (map fst (acc @ (k, v) # d)) \<longrightarrow>
        decode_dict n (pre @ bencoding_items ((k, v) # d) @ CHR ''e'' # suf) (int (length pre)) acc
        = Some (Inr (PyDict (acc @ (k, v) # d),
                     int (length pre) + int (length (bencoding_items ((k, v) # d))) + 1))"
      by blast
  qed
qed simp_all

subsection \<open>Round trip\<close>

lemma decode_whole:
  assumes eq: "data = c # cs"
    and el: "bdecode n data c 0 = Some (Inr (v, int (length data)))"
  shows "decode n data = Some (Inr v)"
  using el unfolding decode_def Decoder_init_def Decoder_decode_def eq
  by (simp add: getitem_def)

lemma example_shape:
  "value_shape (PyDict [(PyBytes ''cow'', PyBytes ''moo''),
                        (PyBytes ''spam'', PyList [PyInt (- 12), PyBytes [], PyDict []])])"
  by code_simp

lemma example_bencoding:
  "bencoding (PyDict [(PyBytes ''cow'', PyBytes ''moo''),
                      (PyBytes ''spam'', PyList [PyInt (- 12), PyBytes [], PyDict []])])
   = ''d3:cow3:moo4:spamli-12e0:deee''"
  by code_simp

text \<open>
  Claim C1. For every value \<open>v\<close> of the four shapes (byte string, integer, list,
  ordered mapping from byte strings, nested arbitrarily), \<^verbatim>\<open>encode\<close> returns the bytes
  that the encoding rules give, with the items of every mapping in the order of \<open>v\<close>
  and nothing sorted, and \<^verbatim>\<open>decode\<close> of these bytes returns (for every bound on the
  number of calls from some bound on) a value equal to \<open>v\<close>, the items of every
  mapping in the same order. The nesting depth is not bounded here, as if the
  interpreter's recursion limit were high enough for the value.
\<close>

theorem decode_encode_roundtrip:
  assumes "value_shape v"
  shows "encode v = Inr (bencoding v) \<and> (\<exists>N. \<forall>n\<ge>N. decode n (bencoding v) = Some (Inr v))"
proof
  show "encode v = Inr (bencoding v)" using assms by (rule encode_shape)
next
  from bencoding_Cons [OF assms] obtain c cs where eq: "bencoding v = c # cs" by blast
  from bdecode_roundtrip assms obtain N where N: "\<And>n pre suf c cs. N \<le> n \<Longrightarrow>
      bencoding v = c # cs \<Longrightarrow>
      bdecode n (pre @ bencoding v @ suf) c (int (length pre))
      = Some (Inr (v, int (length pre) + int (length (bencoding v))))"
    by blast
  have "\<forall>n\<ge>N. decode n (bencoding v) = Some (Inr v)"
  proof (intro allI impI)
    fix n
    assume "N \<le> n"
    from N [OF this eq, of "[]" "[]"]
    have "bdecode n (bencoding v) c 0 = Some (Inr (v, int (length (bencoding v))))" by simp
    with eq show "decode n (bencoding v) = Some (Inr v)" by (rule decode_whole)
  qed
  then show "\<exists>N. \<forall>n\<ge>N. decode n (bencoding v) = Some (Inr v)" by blast
qed

theorem decode_encode_roundtrip_witness:
  "encode (PyDict [(PyBytes ''cow'', PyBytes ''moo''),
                   (PyBytes ''spam'', PyList [PyInt (- 12), PyBytes [], PyDict []])])
     = Inr ''d3:cow3:moo4:spamli-12e0:deee''
   \<and> (\<exists>N. \<forall>n\<ge>N. decode n ''d3:cow3:moo4:spamli-12e0:deee''
         = Some (Inr (PyDict [(PyBytes ''cow'', PyBytes ''moo''),
                              (PyBytes ''spam'', PyList [PyInt (- 12), PyBytes [], PyDict []])])))"
  using decode_encode_roundtrip [OF example_shape] unfolding example_bencoding .

subsection \<open>The decoder on malformed input\<close>

lemma decode_unfold:
  "decode n data =
     (if data = [] then Some (Inl TypeError)
      else (case bdecode n data (data ! 0) 0 of
              None \<Rightarrow> None
            | Some (Inl e) \<Rightarrow> Some (Inl e)
            | Some (Inr (res, curr_index)) \<Rightarrow>
                if curr_index \<noteq> int (length data)
                then Some (Inl (InvalidTorrentFileBencoding TrailingBytes))
                else Some (Inr res)))"
  by (simp add: decode_def Decoder_init_def Decoder_decode_def getitem_def)

lemma ex_str:
  "decode_str ''1 :a'' 0 = Inr (PyBytes ''a'', 4)"
  "decode_str ''3:ab'' 0 = Inr (PyBytes ''ab'', 5)"
  "decode_str ''d-2:i1e'' 1 = Inr (PyBytes [], 2)"
  "decode_str ''d-2:i1e'' 2 = Inr (PyBytes ''i1'', 6)"
  "decode_str ''d+1:ai1ee'' 1 = Inr (PyBytes ''a'', 5)"
  "decode_str ''d1:a'' 1 = Inr (PyBytes ''a'', 4)"
  "decode_str ''d-2:ab-7:'' 1 = Inr (PyBytes [], 2)"
  "decode_str ''d-2:ab-7:'' 2 = Inr (PyBytes ''ab'', 6)"
  "decode_str ''d-2:ab-7:'' 6 = Inr (PyBytes [], 2)"
  by code_simp+

lemma ex_int:
  "decode_int ''d+1:ai1ee'' 5 = Inr (PyInt 1, 8)"
  "decode_int ''i+5e'' 0 = Inr (PyInt 5, 4)"
  "decode_int ''i 5e'' 0 = Inr (PyInt 5, 4)"
  "decode_int ''i-42e'' 0 = Inr (PyInt (- 42), 5)"
  "decode_int ''ie'' 0 = Inl (InvalidTorrentFileBencoding (BadInt 1))"
  "decode_int ''ixe'' 0 = Inl (InvalidTorrentFileBencoding (BadInt 1))"
  "decode_int ''i03e'' 0 = Inl (InvalidTorrentFileBencoding (LeadingZero 1))"
  "decode_int ''i-0e'' 0 = Inl (InvalidTorrentFileBencoding (LeadingZero 1))"
  by code_simp+

lemma ex_getitem:
  "getitem ''d-2:i1e'' 1 = Inr (CHR ''-'')"
  "getitem ''d-2:i1e'' 2 = Inr (CHR ''2'')"
  "getitem ''d-2:i1e'' 6 = Inr (CHR ''e'')"
  "getitem ''d+1:ai1ee'' 1 = Inr (CHR ''+'')"
  "getitem ''d+1:ai1ee'' 5 = Inr (CHR ''i'')"
  "getitem ''d+1:ai1ee'' 8 = Inr (CHR ''e'')"
  "getitem ''d1:a'' 1 = Inr (CHR ''1'')"
  "getitem ''d1:a'' 4 = Inl IndexError"
  "getitem ''d-2:ab-7:'' 1 = Inr (CHR ''-'')"
  "getitem ''d-2:ab-7:'' 2 = Inr (CHR ''2'')"
  "getitem ''d-2:ab-7:'' 6 = Inr (CHR ''-'')"
  by code_simp+

lemma ex_setitem:
  "setitem [] (PyBytes []) (PyBytes ''i1'') = [(PyBytes [], PyBytes ''i1'')]"
  "setitem [] (PyBytes ''a'') (PyInt 1) = [(PyBytes ''a'', PyInt 1)]"
  by code_simp+

lemma cursor_cycle: "decode_dict n ''d-2:ab-7:'' 6 d = None"
proof (induction n arbitrary: d)
  case 0
  show ?case by simp
next
  case (Suc n)
  show ?case
  proof (cases n)
    case 0
    then show ?thesis by (simp add: ex_str ex_getitem)
  next
    case (Suc m)
    then have "bdecode n ''d-2:ab-7:'' (CHR ''2'') 2 = Some (Inr (PyBytes ''ab'', 6))"
      by (simp add: ex_str)
    then show ?thesis using Suc.IH by (simp add: ex_str ex_getitem)
  qed
qed

lemma first_iteration:
  "decode_dict (Suc k) ''d-2:ab-7:'' 1 [] =
     (case bdecode k ''d-2:ab-7:'' (CHR ''2'') 2 of
        None \<Rightarrow> None
      | Some (Inl e) \<Rightarrow> Some (Inl e)
      | Some (Inr (val, j)) \<Rightarrow> decode_dict k ''d-2:ab-7:'' j (setitem [] (PyBytes []) val))"
  by (simp add: ex_str ex_getitem)

lemma first_value:
  "bdecode (Suc j) ''d-2:ab-7:'' (CHR ''2'') 2 = Some (Inr (PyBytes ''ab'', 6))"
  by (simp add: ex_str)

lemma dict_never_returns: "decode_dict m ''d-2:ab-7:'' 1 [] = None"
proof (cases m)
  case 0
  then show ?thesis by simp
next
  case m: (Suc k)
  show ?thesis
  proof (cases k)
    case 0
    show ?thesis unfolding m first_iteration 0 by simp
  next
    case (Suc j)
    show ?thesis unfolding m first_iteration unfolding Suc first_value
      by (simp only: cursor_cycle sum.case prod.case option.case)
  qed
qed

lemma decode_never_returns: "decode n ''d-2:ab-7:'' = None"
proof (cases n)
  case 0
  then show ?thesis by (simp add: decode_unfold)
next
  case (Suc m)
  have "bdecode (Suc m) ''d-2:ab-7:'' (CHR ''d'') 0 = None"
    using dict_never_returns [of m] by simp
  then show ?thesis unfolding Suc by (simp add: decode_unfold)
qed

text \<open>
  Claim C4. \<^verbatim>\<open>decode\<close> should either return a value or raise
  \<^verbatim>\<open>InvalidTorrentFileBencoding\<close>. The source looks the leading byte up in a
  dictionary without a handler, so an unknown leading byte (\<^verbatim>\<open>x\<close>, \<^verbatim>\<open>e\<close>) raises
  \<^verbatim>\<open>KeyError\<close>; an empty buffer raises \<^verbatim>\<open>TypeError\<close>; a mapping that ends after a key
  raises \<^verbatim>\<open>IndexError\<close>; and on \<^verbatim>\<open>d-2:ab-7:\<close> the negative lengths send the cursor
  round a cycle, so the decoder neither returns nor raises, whatever the bound.
\<close>

theorem decode_raises_other_errors:
  "decode (Suc n) ''x'' = Some (Inl KeyError)
   \<and> decode (Suc n) ''e'' = Some (Inl KeyError)
   \<and> decode n [] = Some (Inl TypeError)
   \<and> decode (Suc (Suc n)) ''d1:a'' = Some (Inl IndexError)
   \<and> decode n ''d-2:ab-7:'' = None"
proof (intro conjI)
  show "decode (Suc n) ''x'' = Some (Inl KeyError)" by (simp add: decode_unfold)
  show "decode (Suc n) ''e'' = Some (Inl KeyError)" by (simp add: decode_unfold)
  show "decode n [] = Some (Inl TypeError)" by (simp add: decode_unfold)
  show "decode (Suc (Suc n)) ''d1:a'' = Some (Inl IndexError)"
    by (simp add: decode_unfold ex_str ex_getitem)
  show "decode n ''d-2:ab-7:'' = None" by (rule decode_never_returns)
qed

text \<open>
  Claim C5. The length in front of the colon should be a non-negative decimal integer,
  anything else an error. The source passes the bytes to \<^verbatim>\<open>int\<close> and does not check
  the sign: a length followed by a space is accepted, and in the position of a mapping
  key (which is decoded without looking at its first byte) a negative length and a plus
  sign are accepted too, the negative length moving the cursor backwards. A declared
  length that exceeds the buffer, as in \<^verbatim>\<open>3:ab\<close>, is rejected.
\<close>

theorem decode_str_accepts_malformed_length:
  "decode (Suc n) ''1 :a'' = Some (Inr (PyBytes ''a''))
   \<and> decode (Suc (Suc (Suc n))) ''d-2:i1e'' = Some (Inr (PyDict [(PyBytes [], PyBytes ''i1'')]))
   \<and> decode (Suc (Suc (Suc n))) ''d+1:ai1ee'' = Some (Inr (PyDict [(PyBytes ''a'', PyInt 1)]))
   \<and> decode (Suc n) ''3:ab'' = Some (Inl (InvalidTorrentFileBencoding TrailingBytes))"
  by (simp add: decode_unfold ex_str ex_int ex_getitem ex_setitem)

text \<open>
  Claim C6. An integer \<^verbatim>\<open>i...e\<close> should be rejected when the span between \<^verbatim>\<open>i\<close> and
  \<^verbatim>\<open>e\<close> holds anything but digits after an optional minus sign. The source rejects
  the empty span, a leading zero, a negative zero and letters, and returns the value
  of a well-formed integer, but \<^verbatim>\<open>int\<close> accepts a plus sign and surrounding white
  space, so \<^verbatim>\<open>i+5e\<close> and \<^verbatim>\<open>i 5e\<close> decode to 5.
\<close>

theorem decode_int_accepts_sign_and_space:
  "decode (Suc n) ''i+5e'' = Some (Inr (PyInt 5))
   \<and> decode (Suc n) ''i 5e'' = Some (Inr (PyInt 5))
   \<and> decode (Suc n) ''i-42e'' = Some (Inr (PyInt (- 42)))
   \<and> decode (Suc n) ''ie'' = Some (Inl (InvalidTorrentFileBencoding (BadInt 1)))
   \<and> decode (Suc n) ''ixe'' = Some (Inl (InvalidTorrentFileBencoding (BadInt 1)))
   \<and> decode (Suc n) ''i03e'' = Some (Inl (InvalidTorrentFileBencoding (LeadingZero 1)))
   \<and> decode (Suc n) ''i-0e'' = Some (Inl (InvalidTorrentFileBencoding (LeadingZero 1)))"
  by (simp add: decode_unfold ex_int)

subsection \<open>The encoder on unsupported input\<close>

lemma str_int_small: "str_int 0 = ''0''" "str_int 1 = ''1''"
  by code_simp+

lemma utf8_surrogate: "utf8_char 0xD800 = Inl UnicodeEncodeError"
  by (simp add: utf8_char_def)

lemma str_encode_ok: "list_all (\<lambda>cp. \<not> is_surrogate cp) s \<Longrightarrow> \<exists>b. str_encode s = Inr b"
proof (induction s)
  case Nil
  show ?case by simp
next
  case (Cons cp s)
  then have "\<not> is_surrogate cp" and "\<exists>b. str_encode s = Inr b" by simp_all
  moreover from \<open>\<not> is_surrogate cp\<close> have "\<exists>b. utf8_char cp = Inr b"
    by (simp add: utf8_char_def is_surrogate_def)
  ultimately show ?case by auto
qed

lemma encode_func_outcome:
  "encodable_strs v \<longrightarrow>
     (\<forall>acc. if has_unsupported v then encode_func v acc = Inl KeyError
            else (\<exists>acc'. encode_func v acc = Inr acc'))"
  and encode_list_outcome:
  "list_encodable_strs lst \<longrightarrow>
     (\<forall>acc. if list_has_unsupported lst then encode_list lst acc = Inl KeyError
            else (\<exists>acc'. encode_list lst acc = Inr acc'))"
  and encode_dict_outcome:
  "items_encodable_strs d \<longrightarrow>
     (\<forall>acc. if items_have_unsupported d then encode_dict d acc = Inl KeyError
            else (\<exists>acc'. encode_dict d acc = Inr acc'))"
proof (induction v and lst and d rule: has_unsupported_list_has_unsupported_items_have_unsupported.induct)
  case (2 lst)
  show ?case
  proof (intro impI allI)
    fix acc
    assume "encodable_strs (PyList lst)"
    then have "list_encodable_strs lst" by simp
    with 2 have h: "if list_has_unsupported lst then encode_list lst (acc @ [''l'']) = Inl KeyError
        else (\<exists>acc'. encode_list lst (acc @ [''l'']) = Inr acc')" by blast
    show "if has_unsupported (PyList lst) then encode_func (PyList lst) acc = Inl KeyError
          else (\<exists>acc'. encode_func (PyList lst) acc = Inr acc')"
      using h by (cases "list_has_unsupported lst") auto
  qed
next
  case (3 lst)
  show ?case
  proof (intro impI allI)
    fix acc
    assume "encodable_strs (PyTuple lst)"
    then have "list_encodable_strs lst" by simp
    with 3 have h: "if list_has_unsupported lst then encode_list lst (acc @ [''l'']) = Inl KeyError
        else (\<exists>acc'. encode_list lst (acc @ [''l'']) = Inr acc')" by blast
    show "if has_unsupported (PyTuple lst) then encode_func (PyTuple lst) acc = Inl KeyError
          else (\<exists>acc'. encode_func (PyTuple lst) acc = Inr acc')"
      using h by (cases "list_has_unsupported lst") auto
  qed
next
  case (4 d)
  show ?case
  proof (intro impI allI)
    fix acc
    assume "encodable_strs (PyDict d)"
    then have "items_encodable_strs d" by simp
    with 4 have h: "if items_have_unsupported d then encode_dict d (acc @ [''d'']) = Inl KeyError
        else (\<exists>acc'. encode_dict d (acc @ [''d'']) = Inr acc')" by blast
    show "if has_unsupported (PyDict d) then encode_func (PyDict d) acc = Inl KeyError
          else (\<exists>acc'. encode_func (PyDict d) acc = Inr acc')"
      using h by (cases "items_have_unsupported d") auto
  qed
next
  case (5 i)
  show ?case by (simp add: encode_int_def)
next
  case (6 b)
  show ?case by (simp add: encode_bool_def encode_int_def)
next
  case (7 s)
  show ?case using str_encode_ok [of s] by (auto simp: encode_str_def)
next
  case (8 b)
  show ?case by (simp add: encode_bytes_def)
next
  case (10 v lst)
  show ?case
  proof (intro impI allI)
    fix acc
    assume "list_encodable_strs (v # lst)"
    then have v: "encodable_strs v" and l: "list_encodable_strs lst" by simp_all
    show "if list_has_unsupported (v # lst) then encode_list (v # lst) acc = Inl KeyError
          else (\<exists>acc'. encode_list (v # lst) acc = Inr acc')"
    proof (cases "has_unsupported v")
      case True
      with v 10 have "encode_func v acc = Inl KeyError" by simp
      with True show ?thesis by simp
    next
      case False
      from v 10 have "if has_unsupported v then encode_func v acc = Inl KeyError
          else (\<exists>acc'. encode_func v acc = Inr acc')" by blast
      with False obtain a1 where a1: "encode_func v acc = Inr a1" by auto
      from l 10 have "if list_has_unsupported lst then encode_list lst a1 = Inl KeyError
          else (\<exists>acc'. encode_list lst a1 = Inr acc')" by blast
      with False a1 show ?thesis by simp
    qed
  qed
next
  case (12 k v d)
  show ?case
  proof (intro impI allI)
    fix acc
    assume "items_encodable_strs ((k, v) # d)"
    then have k: "encodable_strs k" and v: "encodable_strs v" and d: "items_encodable_strs d"
      by simp_all
    show "if items_have_unsupported ((k, v) # d) then encode_dict ((k, v) # d) acc = Inl KeyError
          else (\<exists>acc'. encode_dict ((k, v) # d) acc = Inr acc')"
    proof (cases "has_unsupported k")
      case True
      with k 12 have "encode_func k acc = Inl KeyError" by simp
      with True show ?thesis by simp
    next
      case nk: False
      from k 12 have "if has_unsupported k then encode_func k acc = Inl KeyError
          else (\<exists>acc'. encode_func k acc = Inr acc')" by blast
      with nk obtain a1 where a1: "encode_func k acc = Inr a1" by auto
      show ?thesis
      proof (cases "has_unsupported v")
        case True
        with v 12 have "encode_func v a1 = Inl KeyError" by simp
        with True a1 show ?thesis by simp
      next
        case nv: False
        from v 12 have "if has_unsupported v then encode_func v a1 = Inl KeyError
          else (\<exists>acc'. encode_func v a1 = Inr acc')" by blast
        with nv obtain a2 where a2: "encode_func v a1 = Inr a2" by auto
        from d 12 have "if items_have_unsupported d then encode_dict d a2 = Inl KeyError
          else (\<exists>acc'. encode_dict d a2 = Inr acc')" by blast
        with nk nv a1 a2 show ?thesis by simp
      qed
    qed
  qed
qed simp_all

text \<open>
  When no string inside the object holds a lone surrogate, an unsupported value at any
  depth makes \<^verbatim>\<open>encode\<close> raise \<^verbatim>\<open>InvalidBencodeDataType\<close>.
\<close>

lemma encode_unsupported:
  "encodable_strs v \<Longrightarrow> has_unsupported v \<Longrightarrow> encode v = Inl InvalidBencodeDataType"
  using encode_func_outcome [of v] by (simp add: encode_def)

text \<open>
  Claim C9. \<^verbatim>\<open>encode\<close> should raise \<^verbatim>\<open>InvalidBencodeDataType\<close> for every input that
  holds a value of an unsupported type at any depth, and encode the booleans as
  \<^verbatim>\<open>i1e\<close> and \<^verbatim>\<open>i0e\<close>. It does so for the booleans and, by \<open>encode_unsupported\<close>, for
  an unsupported value at any depth as long as every string can be encoded. But the handler in \<^verbatim>\<open>encode\<close> names
  \<^verbatim>\<open>UnicodeDecodeError\<close>, which nothing in the encoder raises, while \<^verbatim>\<open>s.encode()\<close>
  raises \<^verbatim>\<open>UnicodeEncodeError\<close> on a lone surrogate: a list that holds such a string
  before a \<^verbatim>\<open>float\<close> fails with \<^verbatim>\<open>UnicodeEncodeError\<close>.
\<close>

theorem encode_surrogate_before_unsupported:
  "encode (PyList [PyStr [0xD800], PyOther ''float'']) = Inl UnicodeEncodeError
   \<and> encode (PyOther ''float'') = Inl InvalidBencodeDataType
   \<and> encode (PyList [PyInt 1, PyDict [(PyBytes ''k'', PyOther ''NoneType'')]])
       = Inl InvalidBencodeDataType
   \<and> encode (PyBool True) = Inr ''i1e''
   \<and> encode (PyBool False) = Inr ''i0e''"
  by (simp add: encode_def encode_str_def encode_int_def encode_bool_def encode_bytes_def
      utf8_surrogate str_int_small)

end
